theory Spec2Isabelle
  imports Main "HOL-Library.AList"
begin

section \<open>Values, effects and collaborators\<close>

text \<open>
  JavaScript values as far as the lifecycle module handles them: the fields of a health
  snapshot, the arguments of events, and thrown values. An object is its list of own
  properties; \<open>JError m\<close> is \<open>new Error(m)\<close>.
\<close>

datatype jsval =
    JUndefined
  | JBool bool
  | JNum int
  | JStr string
  | JError string
  | JObj "(string \<times> jsval) list"

type_synonym jsobj = "(string \<times> jsval) list"

text \<open>
  Reading a property. A missing key reads as \<open>undefined\<close>; where a key is defined more
  than once, as in the literal \<open>{ a: 1, a: 2 }\<close>, the last definition is the one read.
\<close>

definition obj_get :: "jsobj \<Rightarrow> string \<Rightarrow> jsval" where
  "obj_get obj k = (case map_of (rev obj) k of None \<Rightarrow> JUndefined | Some v \<Rightarrow> v)"

definition has_key :: "jsobj \<Rightarrow> string \<Rightarrow> bool" where
  "has_key obj k = (k \<in> set (map fst obj))"

text \<open>
  Object spread \<open>{ ...base, ...extra }\<close>: every own property of \<open>extra\<close> is defined on
  the result in turn, replacing the value of a key that is already there.
\<close>

definition spread :: "jsobj \<Rightarrow> jsobj \<Rightarrow> jsobj" where
  "spread base extra = fold (\<lambda>(k, v). AList.update k v) extra base"

text \<open>JavaScript truthiness, as used by \<open>state.healthy ? 200 : 503\<close>.\<close>

fun truthy :: "jsval \<Rightarrow> bool" where
  "truthy JUndefined = False"
| "truthy (JBool b) = b"
| "truthy (JNum n) = (n \<noteq> 0)"
| "truthy (JStr s) = (s \<noteq> [])"
| "truthy (JError m) = True"
| "truthy (JObj ps) = True"

text \<open>
  Everything observable that the module does is appended to a trace: logger calls, event
  emissions, invocations of the configured callbacks, the health server being started and
  closed, the registration of the signal handlers, and \<open>process.exit\<close>.
\<close>

datatype effect =
    LogInfo string
  | LogError string
  | Emitted string "jsval list"
  | Called string "jsval list"
  | ServerStarted nat
  | CloseCalled
  | CloseSettled "jsval option"
  | HandlersRegistered
  | ProcessExit int

text \<open>
  An awaited call either resolves with a value or rejects with a thrown value; it may also
  change the user's own state \<open>'w\<close> (the variables the callbacks close over).
\<close>

type_synonym ('w, 'a) async = "'w \<Rightarrow> (jsval + 'a) \<times> 'w"

text \<open>\<open>LifecycleConfig\<close> of \<open>lifecycle.ts\<close>; an absent optional field is \<open>None\<close>.\<close>

record 'w LifecycleConfig =
  onInit :: "('w, unit) async option"
  onPing :: "('w, jsobj) async option"
  isHealthy :: "('w, bool) async option"
  onFailure :: "(jsval \<Rightarrow> ('w, unit) async) option"
  onShutdown :: "('w, unit) async option"
  dependencies :: "string list option"

text \<open>The collaborator outside the module: the wall clock read by \<open>Date.now()\<close>.\<close>

record 'w runtime =
  date_now :: "'w \<Rightarrow> int"

text \<open>\<open>HealthCheckService\<close> of \<open>healthcheck.ts\<close>: the handle of a started server.\<close>

datatype HealthCheckService = HealthCheckService (port: nat)

definition DEFAULT_PORT :: nat where
  "DEFAULT_PORT = 3000"

text \<open>
  The closure state of one \<open>defineLifecycle\<close> call (\<open>config\<close>, the emitter's listeners in
  registration order, the \<open>dependencyHealth\<close> Map in insertion order, \<open>healthCheckService\<close>),
  together with the process it runs in: the clock, the user's state, whether the server
  behind the handle is running (\<open>server.listening\<close> of \<open>healthcheck.ts\<close>), whether the
  signal handlers are registered, the trace, and the exit code once the process has exited.
\<close>

record 'w lifecycle =
  config :: "'w LifecycleConfig"
  listeners :: "(string \<times> (jsval list \<Rightarrow> ('w, unit) async)) list"
  dependencyHealth :: "(string \<times> bool) list"
  healthCheckService :: "HealthCheckService option"
  listening :: bool
  runtime :: "'w runtime"
  world :: "'w"
  signalHandlers :: nat
  trace :: "effect list"
  exitCode :: "int option"

definition log_info :: "string \<Rightarrow> 'w lifecycle \<Rightarrow> 'w lifecycle" where
  "log_info msg s = s\<lparr>trace := trace s @ [LogInfo msg]\<rparr>"

definition log_error :: "string \<Rightarrow> 'w lifecycle \<Rightarrow> 'w lifecycle" where
  "log_error msg s = s\<lparr>trace := trace s @ [LogError msg]\<rparr>"

definition process_exit :: "int \<Rightarrow> 'w lifecycle \<Rightarrow> 'w lifecycle" where
  "process_exit c s = s\<lparr>trace := trace s @ [ProcessExit c], exitCode := Some c\<rparr>"

text \<open>
  Invoking a configured callback: the invocation is recorded, the callback runs on the
  user's state, and its settlement is returned.
\<close>

definition call :: "string \<Rightarrow> jsval list \<Rightarrow> ('w, 'a) async \<Rightarrow> 'w lifecycle
    \<Rightarrow> (jsval + 'a) \<times> 'w lifecycle" where
  "call name args f s =
     (case f (world s) of
        (r, w') \<Rightarrow> (r, s\<lparr>world := w', trace := trace s @ [Called name args]\<rparr>))"

section \<open>The event emitter\<close>

text \<open>
  \<open>emitter.on\<close> appends a listener; \<open>emitter.emit\<close> calls the listeners of the event
  synchronously in registration order and returns whether there was one. A listener that
  throws ends the fan-out: the exception leaves \<open>emit\<close>. The module itself emits
  \<open>init\<close>, \<open>ready\<close>, \<open>failure\<close> and \<open>done\<close>; what Node's emitter does for the
  event name \<open>error\<close> when it has no listener is left out.
\<close>

definition on :: "string \<Rightarrow> (jsval list \<Rightarrow> ('w, unit) async) \<Rightarrow> 'w lifecycle \<Rightarrow> 'w lifecycle" where
  "on event listener s = s\<lparr>listeners := listeners s @ [(event, listener)]\<rparr>"

fun run_listeners :: "(jsval list \<Rightarrow> ('w, unit) async) list \<Rightarrow> jsval list \<Rightarrow> 'w
    \<Rightarrow> (jsval + unit) \<times> 'w" where
  "run_listeners [] args w = (Inr (), w)"
| "run_listeners (l # ls) args w =
     (case l args w of
        (Inl e, w') \<Rightarrow> (Inl e, w')
      | (Inr u, w') \<Rightarrow> run_listeners ls args w')"

definition listeners_of :: "string \<Rightarrow> 'w lifecycle \<Rightarrow> (jsval list \<Rightarrow> ('w, unit) async) list" where
  "listeners_of event s = map snd (filter (\<lambda>p. fst p = event) (listeners s))"

definition emit :: "string \<Rightarrow> jsval list \<Rightarrow> 'w lifecycle \<Rightarrow> (jsval + bool) \<times> 'w lifecycle" where
  "emit event args s =
     (let s1 = s\<lparr>trace := trace s @ [Emitted event args]\<rparr> in
      case run_listeners (listeners_of event s) args (world s) of
        (Inl e, w') \<Rightarrow> (Inl e, s1\<lparr>world := w'\<rparr>)
      | (Inr u, w') \<Rightarrow> (Inr (listeners_of event s \<noteq> []), s1\<lparr>world := w'\<rparr>))"

section \<open>defineLifecycle\<close>

text \<open>
  The constructor creates the emitter and the \<open>dependencyHealth\<close> Map and sets every
  configured dependency name to \<open>false\<close> with \<open>Map.set\<close>, which replaces the value of a
  key that is already present. The result is the settlement of the call: \<open>Inl\<close> would be a
  thrown error.
\<close>

definition declare_deps :: "string list \<Rightarrow> (string \<times> bool) list" where
  "declare_deps names = fold (\<lambda>dep m. AList.update dep False m) names []"

definition defineLifecycle :: "'w LifecycleConfig \<Rightarrow> 'w runtime \<Rightarrow> 'w \<Rightarrow> jsval + 'w lifecycle" where
  "defineLifecycle cfg rt w =
     Inr \<lparr> config = cfg,
           listeners = [],
           dependencyHealth =
             (case dependencies cfg of None \<Rightarrow> [] | Some names \<Rightarrow> declare_deps names),
           healthCheckService = None,
           listening = False,
           runtime = rt,
           world = w,
           signalHandlers = 0,
           trace = [],
           exitCode = None \<rparr>"

section \<open>getHealthState\<close>

text \<open>
  The three local bindings of \<open>getHealthState\<close>, in the order in which the source
  evaluates them: \<open>customState\<close> (awaits \<open>onPing\<close>), \<open>deps\<close>, \<open>healthy\<close> (awaits
  \<open>isHealthy\<close>, or else every flag of the Map).
\<close>

definition customState :: "'w lifecycle \<Rightarrow> (jsval + jsobj) \<times> 'w lifecycle" where
  "customState s =
     (case onPing (config s) of
        None \<Rightarrow> (Inr [], s)
      | Some f \<Rightarrow> call ''onPing'' [] f s)"

definition deps :: "'w lifecycle \<Rightarrow> jsobj" where
  "deps s = map (\<lambda>(k, v). (k, JBool v)) (dependencyHealth s)"

definition healthy :: "'w lifecycle \<Rightarrow> (jsval + bool) \<times> 'w lifecycle" where
  "healthy s =
     (case isHealthy (config s) of
        None \<Rightarrow> (Inr (list_all (\<lambda>v. v) (map snd (dependencyHealth s))), s)
      | Some f \<Rightarrow> call ''isHealthy'' [] f s)"

definition getHealthState :: "'w lifecycle \<Rightarrow> (jsval + jsobj) \<times> 'w lifecycle" where
  "getHealthState s =
     (case customState s of
        (Inl e, s1) \<Rightarrow> (Inl e, s1)
      | (Inr custom, s1) \<Rightarrow>
          (case healthy s1 of
             (Inl e, s2) \<Rightarrow> (Inl e, s2)
           | (Inr h, s2) \<Rightarrow>
               (Inr (spread
                  [(''healthy'', JBool h),
                   (''timestamp'', JNum (date_now (runtime s2) (world s2))),
                   (''dependencies'', if length (deps s1) > 0 then JObj (deps s1) else JUndefined)]
                  custom),
                s2)))"

section \<open>The health endpoint\<close>

record request =
  url :: string
  httpMethod :: string

text \<open>
  What the handler wrote on \<open>res\<close>: the status code, the \<open>Content-Type\<close> header if
  one was set, and the body. \<open>JSON_stringify v\<close> stands for the text that
  \<open>JSON.stringify\<close> produces for \<open>v\<close>.
\<close>

datatype body = NoBody | JSON_stringify jsval

record response =
  statusCode :: nat
  contentType :: "string option"
  body :: body

text \<open>
  The callback built by \<open>createHealthCheckCallback\<close>, with the promise chain
  \<open>getHealthState().then(...).catch(...)\<close> run to its settlement: \<open>Inl\<close> would be a
  rejection that nothing handles.
\<close>

definition createHealthCheckCallback :: "request \<Rightarrow> 'w lifecycle
    \<Rightarrow> (jsval + response) \<times> 'w lifecycle" where
  "createHealthCheckCallback req s =
     (if url req = ''/health'' then
        (case getHealthState s of
           (Inr state, s1) \<Rightarrow>
             (Inr \<lparr> statusCode = (if truthy (obj_get state ''healthy'') then 200 else 503),
                    contentType = Some ''application/json'',
                    body = JSON_stringify (JObj state) \<rparr>,
              s1)
         | (Inl err, s1) \<Rightarrow>
             (Inr \<lparr> statusCode = 503,
                    contentType = Some ''application/json'',
                    body = JSON_stringify
                      (JObj [(''healthy'', JBool False),
                             (''error'', JStr ''Failed to get health state'')]) \<rparr>,
              log_error ''Error getting health state'' s1))
      else (Inr \<lparr> statusCode = 404, contentType = None, body = NoBody \<rparr>, s))"

text \<open>
  \<open>startHealthCheckServer\<close> of \<open>healthcheck.ts\<close>: the request listener of the server
  routes \<open>GET /health\<close> to the callback (a generic 200 when none was given) and answers
  404 otherwise; the server is set listening and the returned handle carries the port.
\<close>

definition server_listener :: "(request \<Rightarrow> 's \<Rightarrow> (jsval + response) \<times> 's) option
    \<Rightarrow> request \<Rightarrow> 's \<Rightarrow> (jsval + response) \<times> 's" where
  "server_listener cb req s =
     (if url req = ''/health'' \<and> httpMethod req = ''GET'' then
        (case cb of
           None \<Rightarrow>
             (Inr \<lparr> statusCode = 200,
                    contentType = Some ''application/json'',
                    body = JSON_stringify (JObj [(''status'', JStr ''Ok'')]) \<rparr>,
              s)
         | Some f \<Rightarrow> f req s)
      else (Inr \<lparr> statusCode = 404, contentType = None, body = NoBody \<rparr>, s))"

definition startHealthCheckServer :: "'w lifecycle \<Rightarrow> HealthCheckService \<times> 'w lifecycle" where
  "startHealthCheckServer s =
     (HealthCheckService DEFAULT_PORT,
      s\<lparr>listening := True, trace := trace s @ [ServerStarted DEFAULT_PORT]\<rparr>)"

text \<open>A request arriving at the server that \<open>init\<close> started.\<close>

definition handle_request :: "request \<Rightarrow> 'w lifecycle \<Rightarrow> (jsval + response) \<times> 'w lifecycle" where
  "handle_request req s = server_listener (Some createHealthCheckCallback) req s"

section \<open>shutdown\<close>

text \<open>
  How an asynchronous function of the module ends: it resolves, it rejects with a thrown
  value, or the process exits under it.
\<close>

datatype 'a completion = Resolved 'a | Rejected jsval | Exited int

text \<open>
  The \<open>close\<close> of the handle is \<open>promisify(server.close.bind(server))\<close>: on a running
  server it stops the server and resolves once the server has closed; on a server that is
  not running, as after an earlier \<open>close\<close>, Node's \<open>server.close\<close> passes
  \<open>ERR_SERVER_NOT_RUNNING\<close> to its callback and the promise rejects.
\<close>

definition ERR_SERVER_NOT_RUNNING :: jsval where
  "ERR_SERVER_NOT_RUNNING = JError ''Server is not running.''"

definition close_server :: "'w lifecycle \<Rightarrow> (jsval + unit) \<times> 'w lifecycle" where
  "close_server s =
     (if listening s then
        (Inr (), s\<lparr>listening := False, trace := trace s @ [CloseCalled, CloseSettled None]\<rparr>)
      else
        (Inl ERR_SERVER_NOT_RUNNING,
         s\<lparr>trace := trace s @ [CloseCalled, CloseSettled (Some ERR_SERVER_NOT_RUNNING)]\<rparr>))"

text \<open>The statement \<open>if (healthCheckService) await healthCheckService.close()\<close>.\<close>

definition close_healthCheckService :: "'w lifecycle \<Rightarrow> (jsval + unit) \<times> 'w lifecycle" where
  "close_healthCheckService s =
     (case healthCheckService s of
        None \<Rightarrow> (Inr (), s)
      | Some h \<Rightarrow> close_server s)"

text \<open>The statement \<open>if (config.onShutdown) await config.onShutdown()\<close>.\<close>

definition await_onShutdown :: "'w lifecycle \<Rightarrow> (jsval + unit) \<times> 'w lifecycle" where
  "await_onShutdown s =
     (case onShutdown (config s) of
        None \<Rightarrow> (Inr (), s)
      | Some f \<Rightarrow> call ''onShutdown'' [] f s)"

text \<open>
  \<open>shutdown\<close> has no \<open>try\<close>: an error of either awaited statement, or of a \<open>done\<close>
  listener, rejects the call at that point, and \<open>process.exit(0)\<close> is reached only past
  them.
\<close>

definition shutdown :: "'w lifecycle \<Rightarrow> unit completion \<times> 'w lifecycle" where
  "shutdown s =
     (case close_healthCheckService (log_info ''Initiating graceful shutdown...'' s) of
        (Inl e, s1) \<Rightarrow> (Rejected e, s1)
      | (Inr u, s1) \<Rightarrow>
          (case await_onShutdown s1 of
             (Inl e, s2) \<Rightarrow> (Rejected e, s2)
           | (Inr u, s2) \<Rightarrow>
               (case emit ''done'' [] s2 of
                  (Inl e, s3) \<Rightarrow> (Rejected e, s3)
                | (Inr b, s3) \<Rightarrow> (Exited 0, process_exit 0 s3))))"

text \<open>
  \<open>setupShutdownHandlers\<close> of \<open>shutdown.ts\<close> registers one handler for SIGTERM and one
  for SIGINT. \<open>handleSignal\<close> is the handler: it logs, awaits the callback inside
  \<open>try\<close>/\<open>catch\<close>, logs a caught error, and exits with 0.
\<close>

definition setupShutdownHandlers :: "'w lifecycle \<Rightarrow> 'w lifecycle" where
  "setupShutdownHandlers s =
     s\<lparr>signalHandlers := signalHandlers s + 1, trace := trace s @ [HandlersRegistered]\<rparr>"

definition handleSignal :: "('w lifecycle \<Rightarrow> unit completion \<times> 'w lifecycle) option \<Rightarrow> string
    \<Rightarrow> 'w lifecycle \<Rightarrow> 'w lifecycle" where
  "handleSignal cb nodeSignal s =
     (case (case cb of
              None \<Rightarrow> (Resolved (), log_info ''Signal received, initiating graceful shutdown'' s)
            | Some f \<Rightarrow> f (log_info ''Signal received, initiating graceful shutdown'' s)) of
        (Exited c, s1) \<Rightarrow> s1
      | (Rejected e, s1) \<Rightarrow> process_exit 0 (log_error ''Error during shutdown'' s1)
      | (Resolved u, s1) \<Rightarrow> process_exit 0 s1)"

section \<open>init\<close>

text \<open>The loop that sets every key of the Map to \<open>true\<close>.\<close>

definition markReady :: "(string \<times> bool) list \<Rightarrow> (string \<times> bool) list" where
  "markReady m = fold (\<lambda>dep m'. AList.update dep True m') (map fst m) m"

text \<open>The statement \<open>if (config.onInit) await config.onInit()\<close>.\<close>

definition await_onInit :: "'w lifecycle \<Rightarrow> (jsval + unit) \<times> 'w lifecycle" where
  "await_onInit s =
     (case onInit (config s) of
        None \<Rightarrow> (Inr (), s)
      | Some f \<Rightarrow> call ''onInit'' [] f s)"

text \<open>
  The three statements between \<open>onInit\<close> and the \<open>ready\<close> event: the flags are set, the
  health server is started and kept in \<open>healthCheckService\<close>, the signal handlers are
  registered.
\<close>

definition init_setup :: "'w lifecycle \<Rightarrow> 'w lifecycle" where
  "init_setup s =
     (case startHealthCheckServer (s\<lparr>dependencyHealth := markReady (dependencyHealth s)\<rparr>) of
        (h, s1) \<Rightarrow> setupShutdownHandlers (s1\<lparr>healthCheckService := Some h\<rparr>))"

text \<open>The \<open>try\<close> block of \<open>init\<close>.\<close>

definition init_try :: "'w lifecycle \<Rightarrow> (jsval + unit) \<times> 'w lifecycle" where
  "init_try s =
     (case emit ''init'' [] s of
        (Inl e, s1) \<Rightarrow> (Inl e, s1)
      | (Inr b, s1) \<Rightarrow>
          (case await_onInit s1 of
             (Inl e, s2) \<Rightarrow> (Inl e, s2)
           | (Inr u, s2) \<Rightarrow>
               (case emit ''ready'' [] (init_setup s2) of
                  (Inl e, s3) \<Rightarrow> (Inl e, s3)
                | (Inr b, s3) \<Rightarrow> (Inr (), s3))))"

text \<open>The statement \<open>if (config.onFailure) await config.onFailure(error)\<close>.\<close>

definition await_onFailure :: "jsval \<Rightarrow> 'w lifecycle \<Rightarrow> (jsval + unit) \<times> 'w lifecycle" where
  "await_onFailure error s =
     (case onFailure (config s) of
        None \<Rightarrow> (Inr (), s)
      | Some f \<Rightarrow> call ''onFailure'' [error] (f error) s)"

text \<open>
  \<open>init\<close>: the \<open>try\<close> block, and the \<open>catch\<close> block on its error. Inside the
  \<open>catch\<close> block nothing is caught: an error of a \<open>failure\<close> listener or of
  \<open>onFailure\<close> leaves \<open>init\<close> in place of the original one.
\<close>

definition init :: "'w lifecycle \<Rightarrow> (jsval + unit) \<times> 'w lifecycle" where
  "init s =
     (case init_try s of
        (Inr u, s1) \<Rightarrow> (Inr (), s1)
      | (Inl error, s1) \<Rightarrow>
          (case emit ''failure'' [error] s1 of
             (Inl e, s2) \<Rightarrow> (Inl e, s2)
           | (Inr b, s2) \<Rightarrow>
               (case await_onFailure error s2 of
                  (Inl e, s3) \<Rightarrow> (Inl e, s3)
                | (Inr u, s3) \<Rightarrow> (Inl error, s3))))"

section \<open>The instance\<close>

text \<open>
  The five methods of \<open>LifecycleInstance\<close> as calls on the state. Nothing runs in a
  process that has exited.
\<close>

datatype 'w api =
    Init
  | Shutdown
  | GetHealthState
  | On string "jsval list \<Rightarrow> ('w, unit) async"
  | Emit string "jsval list"

definition exec :: "'w api \<Rightarrow> 'w lifecycle \<Rightarrow> 'w lifecycle" where
  "exec c s =
     (if exitCode s \<noteq> None then s
      else case c of
             Init \<Rightarrow> snd (init s)
           | Shutdown \<Rightarrow> snd (shutdown s)
           | GetHealthState \<Rightarrow> snd (getHealthState s)
           | On event listener \<Rightarrow> on event listener s
           | Emit event args \<Rightarrow> snd (emit event args s))"

definition run :: "'w api list \<Rightarrow> 'w lifecycle \<Rightarrow> 'w lifecycle" where
  "run cs s = fold exec cs s"

section \<open>Example configurations\<close>

text \<open>
  The user's state of the examples is a counter of callback invocations; the clock of the
  examples reads 1000 plus that counter.
\<close>

definition testRuntime :: "nat runtime" where
  "testRuntime = \<lparr> date_now = (\<lambda>w. 1000 + int w) \<rparr>"

text \<open>\<open>defineLifecycle({})\<close>.\<close>

definition emptyConfig :: "nat LifecycleConfig" where
  "emptyConfig = \<lparr> onInit = None, onPing = None, isHealthy = None, onFailure = None,
                   onShutdown = None, dependencies = None \<rparr>"

text \<open>\<open>dependencies: ['db', 'queue']\<close> and \<open>dependencies: ['db', 'db']\<close>.\<close>

definition depsConfig :: "nat LifecycleConfig" where
  "depsConfig = emptyConfig\<lparr>dependencies := Some [''db'', ''queue'']\<rparr>"

definition duplicateConfig :: "nat LifecycleConfig" where
  "duplicateConfig = emptyConfig\<lparr>dependencies := Some [''db'', ''db'']\<rparr>"

text \<open>An \<open>onPing\<close> that returns \<open>{ count: 7 }\<close>, with two declared dependencies.\<close>

definition countConfig :: "nat LifecycleConfig" where
  "countConfig = depsConfig\<lparr>onPing := Some (\<lambda>w. (Inr [(''count'', JNum 7)], Suc w))\<rparr>"

text \<open>
  An \<open>onPing\<close> that returns
  \<open>{ healthy: false, timestamp: 0, dependencies: { cache: false } }\<close>.
\<close>

definition shadowConfig :: "nat LifecycleConfig" where
  "shadowConfig = emptyConfig\<lparr>onPing := Some (\<lambda>w.
     (Inr [(''healthy'', JBool False), (''timestamp'', JNum 0),
           (''dependencies'', JObj [(''cache'', JBool False)])], Suc w))\<rparr>"

text \<open>
  An \<open>onPing\<close> that returns \<open>{ dependencies: { db: false } }\<close>, with two declared
  dependencies.
\<close>

definition staleConfig :: "nat LifecycleConfig" where
  "staleConfig = depsConfig\<lparr>onPing := Some (\<lambda>w.
     (Inr [(''dependencies'', JObj [(''db'', JBool False)])], Suc w))\<rparr>"

text \<open>An \<open>isHealthy\<close> that returns \<open>true\<close>, with two declared dependencies.\<close>

definition customHealthConfig :: "nat LifecycleConfig" where
  "customHealthConfig = depsConfig\<lparr>isHealthy := Some (\<lambda>w. (Inr True, Suc w))\<rparr>"

text \<open>The same \<open>isHealthy\<close> beside an \<open>onPing\<close> that returns \<open>{ healthy: false }\<close>.\<close>

definition contradictConfig :: "nat LifecycleConfig" where
  "contradictConfig = customHealthConfig\<lparr>onPing := Some (\<lambda>w.
     (Inr [(''healthy'', JBool False)], Suc w))\<rparr>"

text \<open>
  An \<open>onShutdown\<close> that rejects on its first invocation and resolves afterwards
  (\<open>mockRejectedValueOnce\<close> in the test suite).
\<close>

definition rejectOnceConfig :: "nat LifecycleConfig" where
  "rejectOnceConfig = emptyConfig\<lparr>onShutdown := Some (\<lambda>w.
     (if w = 0 then Inl (JError ''Shutdown failed'') else Inr (), Suc w))\<rparr>"


text \<open>An \<open>onShutdown\<close> that resolves.\<close>

definition cleanupConfig :: "nat LifecycleConfig" where
  "cleanupConfig = emptyConfig\<lparr>onShutdown := Some (\<lambda>w. (Inr (), Suc w))\<rparr>"

text \<open>
  An \<open>onInit\<close> that rejects with \<open>new Error('Init failed')\<close>, with an \<open>onFailure\<close> that
  resolves, and with one that rejects itself.
\<close>

definition failingInitConfig :: "nat LifecycleConfig" where
  "failingInitConfig = depsConfig\<lparr>
     onInit := Some (\<lambda>w. (Inl (JError ''Init failed''), Suc w)),
     onFailure := Some (\<lambda>e w. (Inr (), Suc w))\<rparr>"

definition doubleFailureConfig :: "nat LifecycleConfig" where
  "doubleFailureConfig = failingInitConfig\<lparr>
     onFailure := Some (\<lambda>e w. (Inl (JError ''Failure handler failed''), Suc w))\<rparr>"

text \<open>An \<open>onPing\<close> that rejects.\<close>

definition failingPingConfig :: "nat LifecycleConfig" where
  "failingPingConfig = emptyConfig\<lparr>onPing := Some (\<lambda>w. (Inl (JError ''Ping failed''), Suc w))\<rparr>"

text \<open>A listener that throws, and configurations whose \<open>onFailure\<close> resolves or rejects.\<close>

definition throwingListener :: "jsval list \<Rightarrow> (nat, unit) async" where
  "throwingListener args w = (Inl (JError ''Listener failed''), w)"

definition handledConfig :: "nat LifecycleConfig" where
  "handledConfig = depsConfig\<lparr>onFailure := Some (\<lambda>e w. (Inr (), Suc w))\<rparr>"

definition unhandledConfig :: "nat LifecycleConfig" where
  "unhandledConfig = depsConfig\<lparr>
     onFailure := Some (\<lambda>e w. (Inl (JError ''Failure handler failed''), Suc w))\<rparr>"

text \<open>A fresh instance of a configuration in the example process.\<close>

definition fresh :: "nat LifecycleConfig \<Rightarrow> nat lifecycle" where
  "fresh cfg = projr (defineLifecycle cfg testRuntime 0)"

section \<open>Association lists under \<open>Map.set\<close> and object spread\<close>

lemma update_fresh: "k \<notin> fst ` set m \<Longrightarrow> AList.update k v m = m @ [(k, v)]"
  by (induction m) auto

lemma fold_update_fresh:
  "distinct names \<Longrightarrow> set names \<inter> fst ` set acc = {} \<Longrightarrow>
   fold (\<lambda>dep m. AList.update dep v m) names acc = acc @ map (\<lambda>n. (n, v)) names"
proof (induction names arbitrary: acc)
  case Nil
  then show ?case by simp
next
  case (Cons n ns)
  have fresh: "n \<notin> fst ` set acc" using Cons.prems by auto
  have "set ns \<inter> fst ` set (acc @ [(n, v)]) = {}" using Cons.prems by auto
  with Cons show ?case by (simp add: update_fresh[OF fresh])
qed

lemma fold_update_keys_distinct:
  "distinct (map fst acc) \<Longrightarrow> distinct (map fst (fold (\<lambda>dep m. AList.update dep v m) names acc))"
  by (induction names arbitrary: acc) (simp_all add: AList.distinct_update)

lemma fold_update_map_of:
  "map_of (fold (\<lambda>dep m. AList.update dep v m) names acc) =
   (\<lambda>k. if k \<in> set names then Some v else map_of acc k)"
  by (induction names arbitrary: acc) (auto simp: AList.update_conv' fun_eq_iff)

lemma declare_deps_distinct: "distinct (map fst (declare_deps names))"
  by (simp add: declare_deps_def fold_update_keys_distinct)

lemma declare_deps_map_of:
  "map_of (declare_deps names) = (\<lambda>k. if k \<in> set names then Some False else None)"
  by (simp add: declare_deps_def fold_update_map_of fun_eq_iff)

lemma declare_deps_keys: "set (map fst (declare_deps names)) = set names"
proof -
  have "fst ` set (declare_deps names) = dom (map_of (declare_deps names))"
    by (simp add: dom_map_of_conv_image_fst)
  also have "\<dots> = set names" by (auto simp: declare_deps_map_of dom_def)
  finally show ?thesis by simp
qed

lemma declare_deps_false: "p \<in> set (declare_deps names) \<Longrightarrow> snd p = False"
proof -
  assume "p \<in> set (declare_deps names)"
  then have "(fst p, snd p) \<in> set (declare_deps names)" by simp
  then have "map_of (declare_deps names) (fst p) = Some (snd p)"
    by (simp only: map_of_eq_Some_iff[OF declare_deps_distinct])
  then show ?thesis by (simp add: declare_deps_map_of split: if_splits)
qed

lemma declare_deps_distinct_names:
  "distinct names \<Longrightarrow> declare_deps names = map (\<lambda>n. (n, False)) names"
  using fold_update_fresh[of names "[]" False] by (simp add: declare_deps_def)

lemma map_of_spread: "map_of (spread base extra) = map_of base ++ map_of (rev extra)"
  unfolding spread_def
proof (induction extra arbitrary: base)
  case Nil
  show ?case by simp
next
  case (Cons p ps)
  show ?case
    by (cases p) (simp add: Cons AList.update_conv' fun_eq_iff map_add_def split: option.splits)
qed

section \<open>The dependency registry at construction\<close>

text \<open>
  A dependency list with a duplicate name is accepted: \<open>defineLifecycle\<close> returns an
  instance for \<open>['db', 'db']\<close>, whose registry has the single entry \<open>db\<close>.
\<close>

theorem defineLifecycle_duplicate_counterexample:
  "\<not> distinct [''db'', ''db''] \<and>
   dependencies duplicateConfig = Some [''db'', ''db''] \<and>
   \<not> isl (defineLifecycle duplicateConfig testRuntime 0) \<and>
   dependencyHealth (projr (defineLifecycle duplicateConfig testRuntime 0)) = [(''db'', False)]"
  by (simp add: defineLifecycle_def duplicateConfig_def emptyConfig_def declare_deps_def)

text \<open>
  C3, as the code has it. Constructing the lifecycle never fails on the dependency list.
  For every sequence of names, with or without duplicates, the registry gets exactly one
  entry per distinct name, each initially false; for a duplicate-free sequence these are
  the names in their order.
\<close>

theorem defineLifecycle_registry:
  assumes "dependencies cfg = Some names"
  shows "\<not> isl (defineLifecycle cfg rt w) \<and>
         distinct (map fst (dependencyHealth (projr (defineLifecycle cfg rt w)))) \<and>
         set (map fst (dependencyHealth (projr (defineLifecycle cfg rt w)))) = set names \<and>
         (\<forall>p \<in> set (dependencyHealth (projr (defineLifecycle cfg rt w))). snd p = False) \<and>
         (distinct names \<longrightarrow>
            dependencyHealth (projr (defineLifecycle cfg rt w)) = map (\<lambda>n. (n, False)) names)"
proof -
  have dh: "dependencyHealth (projr (defineLifecycle cfg rt w)) = declare_deps names"
    using assms by (simp add: defineLifecycle_def)
  show ?thesis
    unfolding dh
    using declare_deps_distinct declare_deps_keys declare_deps_false declare_deps_distinct_names
    by (simp add: defineLifecycle_def)
qed

theorem defineLifecycle_registry_witness:
  "dependencies depsConfig = Some [''db'', ''queue''] \<and> distinct [''db'', ''queue''] \<and>
   \<not> isl (defineLifecycle depsConfig testRuntime 0) \<and>
   dependencyHealth (projr (defineLifecycle depsConfig testRuntime 0)) =
     [(''db'', False), (''queue'', False)]"
proof -
  have d: "dependencies depsConfig = Some [''db'', ''queue'']"
    by (simp add: depsConfig_def)
  show ?thesis
    using d defineLifecycle_registry [OF d, of testRuntime 0] by simp
qed

section \<open>Reading the health snapshot\<close>

lemma map_of_rev_distinct: "distinct (map fst l) \<Longrightarrow> map_of (rev l) = map_of l"
proof (induction l)
  case Nil
  show ?case by simp
next
  case (Cons p l)
  then have fresh: "map_of l (fst p) = None"
    by (simp add: map_of_eq_None_iff)
  have "map_of (rev (p # l)) = [fst p \<mapsto> snd p] ++ map_of l"
    using Cons by simp
  also have "\<dots> = map_of (p # l)"
    using fresh by (auto simp: fun_eq_iff map_add_def split: option.splits)
  finally show ?case .
qed

lemma fold_update_keys_distinct2:
  "distinct (map fst base) \<Longrightarrow> distinct (map fst (fold (\<lambda>(k, v). AList.update k v) extra base))"
  by (induction extra arbitrary: base) (auto simp: AList.distinct_update)

lemma obj_get_spread:
  assumes "distinct (map fst base)"
  shows "obj_get (spread base extra) k =
         (if has_key extra k then obj_get extra k else obj_get base k)"
proof -
  have d: "distinct (map fst (spread base extra))"
    using assms by (simp add: spread_def fold_update_keys_distinct2)
  have "map_of (rev (spread base extra)) = map_of base ++ map_of (rev extra)"
    by (simp add: map_of_rev_distinct[OF d] map_of_spread)
  moreover have "map_of (rev base) = map_of base"
    by (rule map_of_rev_distinct[OF assms])
  moreover have "has_key extra k \<longleftrightarrow> map_of (rev extra) k \<noteq> None"
    by (simp add: has_key_def map_of_eq_None_iff)
  ultimately show ?thesis
    by (auto simp: obj_get_def map_add_def split: option.splits)
qed

lemma getHealthState_Inr:
  assumes "customState s = (Inr custom, s1)" and "healthy s1 = (Inr h, s2)"
  shows "getHealthState s =
    (Inr (spread
            [(''healthy'', JBool h),
             (''timestamp'', JNum (date_now (runtime s2) (world s2))),
             (''dependencies'', if length (deps s1) > 0 then JObj (deps s1) else JUndefined)]
            custom), s2)"
  using assms by (simp add: getHealthState_def)

lemma customState_dependencyHealth:
  "dependencyHealth (snd (customState s)) = dependencyHealth s"
  by (simp add: customState_def call_def split: option.splits prod.splits)

text \<open>The definitions that evaluate the model on a concrete configuration.\<close>

lemmas model_defs =
  fresh_def defineLifecycle_def declare_deps_def testRuntime_def emptyConfig_def
  getHealthState_def customState_def healthy_def deps_def spread_def call_def
  obj_get_def has_key_def log_info_def log_error_def process_exit_def
  emit_def listeners_of_def on_def
  close_server_def close_healthCheckService_def await_onShutdown_def shutdown_def
  setupShutdownHandlers_def handleSignal_def
  markReady_def await_onInit_def init_setup_def init_try_def await_onFailure_def init_def
  startHealthCheckServer_def DEFAULT_PORT_def ERR_SERVER_NOT_RUNNING_def
  createHealthCheckCallback_def server_listener_def handle_request_def

text \<open>
  An \<open>onPing\<close> that returns the three built-in keys shadows all of them: with no
  dependency declared the computed health is true, the clock reads 1001 and there is no
  dependency object, yet the snapshot carries \<open>onPing\<close>'s \<open>false\<close>, \<open>0\<close> and
  \<open>{ cache: false }\<close>.
\<close>

theorem getHealthState_shadow_counterexample:
  "onPing (config (fresh shadowConfig)) \<noteq> None \<and>
   fst (healthy (snd (customState (fresh shadowConfig)))) = Inr True \<and>
   obj_get (projr (fst (getHealthState (fresh shadowConfig)))) ''healthy'' = JBool False \<and>
   date_now (runtime (snd (getHealthState (fresh shadowConfig))))
     (world (snd (getHealthState (fresh shadowConfig)))) = 1001 \<and>
   obj_get (projr (fst (getHealthState (fresh shadowConfig)))) ''timestamp'' = JNum 0 \<and>
   dependencyHealth (fresh shadowConfig) = [] \<and>
   obj_get (projr (fst (getHealthState (fresh shadowConfig)))) ''dependencies'' =
     JObj [(''cache'', JBool False)]"
  by (simp add: model_defs shadowConfig_def)

text \<open>
  C1, as the code has it. The snapshot is the object literal with the spread of
  \<open>onPing\<close>'s mapping last: for each of \<open>healthy\<close>, \<open>timestamp\<close> and
  \<open>dependencies\<close> the snapshot carries \<open>onPing\<close>'s value when the mapping has that
  key, and the computed value (the health from \<open>isHealthy\<close> or the flags, the clock, the
  registry or \<open>undefined\<close>) only when it has not.
\<close>

theorem getHealthState_reserved_keys:
  assumes "onPing (config s) = Some f"
      and "customState s = (Inr custom, s1)"
      and "healthy s1 = (Inr h, s2)"
  shows "\<not> isl (fst (getHealthState s)) \<and>
         obj_get (projr (fst (getHealthState s))) ''healthy'' =
           (if has_key custom ''healthy'' then obj_get custom ''healthy'' else JBool h) \<and>
         obj_get (projr (fst (getHealthState s))) ''timestamp'' =
           (if has_key custom ''timestamp'' then obj_get custom ''timestamp''
            else JNum (date_now (runtime s2) (world s2))) \<and>
         obj_get (projr (fst (getHealthState s))) ''dependencies'' =
           (if has_key custom ''dependencies'' then obj_get custom ''dependencies''
            else if dependencyHealth s = [] then JUndefined else JObj (deps s))"
proof -
  have dh: "dependencyHealth s1 = dependencyHealth s"
    using customState_dependencyHealth[of s] assms(2) by simp
  have dp: "deps s1 = deps s" by (simp add: deps_def dh)
  show ?thesis
    by (simp add: getHealthState_Inr[OF assms(2,3)] obj_get_spread dp)
      (simp add: obj_get_def deps_def)
qed

theorem getHealthState_reserved_keys_witness:
  "onPing (config (fresh countConfig)) \<noteq> None \<and>
   \<not> isl (fst (getHealthState (fresh countConfig))) \<and>
   obj_get (projr (fst (getHealthState (fresh countConfig)))) ''healthy'' = JBool False \<and>
   obj_get (projr (fst (getHealthState (fresh countConfig)))) ''timestamp'' = JNum 1001 \<and>
   obj_get (projr (fst (getHealthState (fresh countConfig)))) ''dependencies'' =
     JObj [(''db'', JBool False), (''queue'', JBool False)] \<and>
   obj_get (projr (fst (getHealthState (fresh countConfig)))) ''count'' = JNum 7"
proof -
  let ?s = "fresh countConfig"
  let ?s1 = "?s\<lparr>world := 1, trace := [Called ''onPing'' []]\<rparr>"
  have p: "onPing (config ?s) = Some (\<lambda>w. (Inr [(''count'', JNum 7)], Suc w))"
    by (simp add: model_defs countConfig_def depsConfig_def)
  have c: "customState ?s = (Inr [(''count'', JNum 7)], ?s1)"
    by (simp add: model_defs countConfig_def depsConfig_def)
  have h: "healthy ?s1 = (Inr False, ?s1)"
    by (simp add: model_defs countConfig_def depsConfig_def)
  have k: "obj_get (projr (fst (getHealthState ?s))) ''count'' = JNum 7"
    by (simp add: model_defs countConfig_def depsConfig_def)
  show ?thesis
    using getHealthState_reserved_keys [OF p c h] p k
    by (simp add: model_defs countConfig_def depsConfig_def)
qed

section \<open>The custom health predicate\<close>

lemma getHealthState_lookup:
  assumes "customState s = (Inr custom, s1)" and "healthy s1 = (Inr h, s2)"
  shows "\<not> isl (fst (getHealthState s)) \<and>
         obj_get (projr (fst (getHealthState s))) k =
           (if has_key custom k then obj_get custom k
            else obj_get
              [(''healthy'', JBool h),
               (''timestamp'', JNum (date_now (runtime s2) (world s2))),
               (''dependencies'',
                  if dependencyHealth s = [] then JUndefined else JObj (deps s))] k)"
proof -
  have dh: "dependencyHealth s1 = dependencyHealth s"
    using customState_dependencyHealth[of s] assms(1) by simp
  have dp: "deps s1 = deps s" by (simp add: deps_def dh)
  show ?thesis
    by (simp add: getHealthState_Inr[OF assms] obj_get_spread dp) (simp add: deps_def)
qed

lemma customState_flags:
  "customState (s\<lparr>dependencyHealth := m\<rparr>) =
   (fst (customState s), (snd (customState s))\<lparr>dependencyHealth := m\<rparr>)"
  by (simp add: customState_def call_def split: option.splits prod.splits)

lemma customState_config: "config (snd (customState s)) = config s"
  by (simp add: customState_def call_def split: option.splits prod.splits)

text \<open>
  With \<open>isHealthy\<close> returning \<open>true\<close> and \<open>onPing\<close> returning \<open>{ healthy: false }\<close>,
  the snapshot reports \<open>healthy: false\<close>: the value of \<open>isHealthy\<close> is overwritten by
  the spread.
\<close>

theorem getHealthState_isHealthy_counterexample:
  "isHealthy (config (fresh contradictConfig)) \<noteq> None \<and>
   fst (healthy (snd (customState (fresh contradictConfig)))) = Inr True \<and>
   \<not> isl (fst (getHealthState (fresh contradictConfig))) \<and>
   obj_get (projr (fst (getHealthState (fresh contradictConfig)))) ''healthy'' = JBool False"
  by (simp add: model_defs contradictConfig_def customHealthConfig_def depsConfig_def)

text \<open>
  C6, as the code has it. When \<open>isHealthy\<close> is configured and the mapping returned by
  \<open>onPing\<close> (empty when \<open>onPing\<close> is not configured) has no \<open>healthy\<close> key, the
  \<open>healthy\<close> field of the snapshot is the boolean that \<open>isHealthy\<close> returns, whatever
  the dependency flags are.
\<close>

theorem getHealthState_isHealthy:
  assumes "isHealthy (config s) = Some f"
      and "customState s = (Inr custom, s1)"
      and "f (world s1) = (Inr h, w2)"
      and "\<not> has_key custom ''healthy''"
  shows "\<not> isl (fst (getHealthState (s\<lparr>dependencyHealth := flags\<rparr>))) \<and>
         obj_get (projr (fst (getHealthState (s\<lparr>dependencyHealth := flags\<rparr>)))) ''healthy'' =
           JBool h"
proof -
  let ?s = "s\<lparr>dependencyHealth := flags\<rparr>"
  let ?s1 = "s1\<lparr>dependencyHealth := flags\<rparr>"
  have c: "customState ?s = (Inr custom, ?s1)"
    using assms(2) by (simp add: customState_flags)
  have "config s1 = config s"
    using customState_config[of s] assms(2) by simp
  then have h: "healthy ?s1 = (Inr h, ?s1\<lparr>world := w2, trace := trace ?s1 @ [Called ''isHealthy'' []]\<rparr>)"
    using assms(1,3) by (simp add: healthy_def call_def)
  show ?thesis
    using getHealthState_lookup[OF c h, of "''healthy''"] assms(4) by (simp add: obj_get_def)
qed

theorem getHealthState_isHealthy_witness:
  "isHealthy (config (fresh customHealthConfig)) \<noteq> None \<and>
   dependencyHealth (fresh customHealthConfig) = [(''db'', False), (''queue'', False)] \<and>
   \<not> isl (fst (getHealthState (fresh customHealthConfig))) \<and>
   obj_get (projr (fst (getHealthState (fresh customHealthConfig)))) ''healthy'' = JBool True"
proof -
  let ?s = "fresh customHealthConfig"
  have i: "isHealthy (config ?s) = Some (\<lambda>w. (Inr True, Suc w))"
    by (simp add: model_defs customHealthConfig_def depsConfig_def)
  have c: "customState ?s = (Inr [], ?s)"
    by (simp add: model_defs customHealthConfig_def depsConfig_def)
  have f: "(\<lambda>w. (Inr True, Suc w)) (world ?s) = (Inr True, 1)"
    by (simp add: model_defs)
  have k: "\<not> has_key [] ''healthy''"
    by (simp add: has_key_def)
  have d: "dependencyHealth ?s = [(''db'', False), (''queue'', False)]"
    by (simp add: model_defs customHealthConfig_def depsConfig_def)
  have e: "?s\<lparr>dependencyHealth := [(''db'', False), (''queue'', False)]\<rparr> = ?s"
    by (simp add: model_defs customHealthConfig_def depsConfig_def)
  show ?thesis
    using getHealthState_isHealthy [OF i c f k, of "[(''db'', False), (''queue'', False)]"] i d
    by (simp add: e)
qed

section \<open>The registry through the life of an instance\<close>

lemma update_present:
  "distinct (map fst m) \<Longrightarrow> k \<in> set (map fst m) \<Longrightarrow>
   AList.update k v m = map (\<lambda>p. if fst p = k then (k, v) else p) m"
proof (induction m)
  case Nil
  then show ?case by simp
next
  case (Cons p m)
  show ?case
  proof (cases "fst p = k")
    case True
    then have "k \<notin> set (map fst m)" using Cons.prems by auto
    then have "map (\<lambda>p. if fst p = k then (k, v) else p) m = m"
      by (induction m) auto
    with True show ?thesis by simp
  next
    case False
    with Cons show ?thesis by auto
  qed
qed

lemma fold_update_present:
  "distinct (map fst m) \<Longrightarrow> set ks \<subseteq> set (map fst m) \<Longrightarrow>
   fold (\<lambda>dep m'. AList.update dep v m') ks m =
   map (\<lambda>p. if fst p \<in> set ks then (fst p, v) else p) m"
proof (induction ks arbitrary: m)
  case Nil
  then show ?case by simp
next
  case (Cons k ks)
  let ?m = "map (\<lambda>p. if fst p = k then (k, v) else p) m"
  have keys: "map fst ?m = map fst m" by (induction m) auto
  have u: "AList.update k v m = ?m"
    using Cons.prems by (simp add: update_present)
  have d: "distinct (map fst ?m)"
    unfolding keys using Cons.prems by simp
  have sub: "set ks \<subseteq> set (map fst ?m)"
    unfolding keys using Cons.prems by simp
  have "fold (\<lambda>dep m'. AList.update dep v m') ks ?m =
        map (\<lambda>p. if fst p \<in> set ks then (fst p, v) else p) ?m"
    by (rule Cons.IH[OF d sub])
  then show ?case by (auto simp: u)
qed

lemma markReady_distinct:
  "distinct (map fst m) \<Longrightarrow> markReady m = map (\<lambda>p. (fst p, True)) m"
  using fold_update_present[of m "map fst m" True] by (simp add: markReady_def)

lemma markReady_keys: "map fst (markReady m) = map fst m"
proof -
  have "set ks \<subseteq> set (map fst m') \<Longrightarrow>
        map fst (fold (\<lambda>dep m''. AList.update dep True m'') ks m') = map fst m'" for ks m'
  proof (induction ks arbitrary: m')
    case Nil
    show ?case by simp
  next
    case (Cons k ks)
    have keys: "map fst (AList.update k True m') = map fst m'"
      using Cons.prems by (simp add: AList.update_keys)
    have "set ks \<subseteq> set (map fst (AList.update k True m'))"
      unfolding keys using Cons.prems by simp
    from Cons.IH[OF this] show ?case by (simp add: keys)
  qed
  from this[of "map fst m" m] show ?thesis by (simp add: markReady_def)
qed

lemma call_dependencyHealth: "dependencyHealth (snd (call n a f s)) = dependencyHealth s"
  by (simp add: call_def split: prod.splits)

lemma emit_dependencyHealth: "dependencyHealth (snd (emit ev a s)) = dependencyHealth s"
  by (simp add: emit_def Let_def split: prod.splits sum.splits)

lemma getHealthState_dependencyHealth:
  "dependencyHealth (snd (getHealthState s)) = dependencyHealth s"
  by (auto simp: getHealthState_def customState_def healthy_def call_def
      split: prod.splits sum.splits option.splits)

lemma shutdown_dependencyHealth: "dependencyHealth (snd (shutdown s)) = dependencyHealth s"
  by (auto simp: shutdown_def close_healthCheckService_def close_server_def await_onShutdown_def
      call_def emit_def Let_def log_info_def process_exit_def
      split: prod.splits sum.splits option.splits)

lemma init_setup_dependencyHealth:
  "dependencyHealth (init_setup s) = markReady (dependencyHealth s)"
  by (simp add: init_setup_def startHealthCheckServer_def setupShutdownHandlers_def)

lemma await_onInit_dependencyHealth:
  "dependencyHealth (snd (await_onInit s)) = dependencyHealth s"
  by (simp add: await_onInit_def call_dependencyHealth split: option.splits)

lemma await_onFailure_dependencyHealth:
  "dependencyHealth (snd (await_onFailure e s)) = dependencyHealth s"
  by (simp add: await_onFailure_def call_dependencyHealth split: option.splits)

lemma init_try_Inr:
  "init_try s = (Inr u, s') \<Longrightarrow> dependencyHealth s' = markReady (dependencyHealth s)"
  using emit_dependencyHealth[of "''init''" "[]" s]
        await_onInit_dependencyHealth[of "snd (emit ''init'' [] s)"]
        emit_dependencyHealth[of "''ready''" "[]" "init_setup (snd (await_onInit (snd (emit ''init'' [] s))))"]
  by (auto simp: init_try_def init_setup_dependencyHealth split: prod.splits sum.splits)

lemma init_try_dependencyHealth:
  "dependencyHealth (snd (init_try s)) = dependencyHealth s \<or>
   dependencyHealth (snd (init_try s)) = markReady (dependencyHealth s)"
  using emit_dependencyHealth[of "''init''" "[]" s]
        await_onInit_dependencyHealth[of "snd (emit ''init'' [] s)"]
        emit_dependencyHealth[of "''ready''" "[]" "init_setup (snd (await_onInit (snd (emit ''init'' [] s))))"]
  by (auto simp: init_try_def init_setup_dependencyHealth split: prod.splits sum.splits)

lemma init_catch_dependencyHealth:
  "dependencyHealth (snd (init s)) = dependencyHealth (snd (init_try s))"
proof (cases "init_try s")
  case (Pair r s1)
  show ?thesis
  proof (cases r)
    case (Inr u)
    with Pair show ?thesis by (simp add: init_def)
  next
    case (Inl e)
    show ?thesis
      using emit_dependencyHealth[of "''failure''" "[e]" s1]
            await_onFailure_dependencyHealth[of e "snd (emit ''failure'' [e] s1)"]
      by (auto simp: init_def Pair Inl split: prod.splits sum.splits)
  qed
qed

lemma init_Inr:
  "init s = (Inr u, s') \<Longrightarrow> dependencyHealth s' = markReady (dependencyHealth s)"
  using init_try_Inr[of s] by (auto simp: init_def split: prod.splits sum.splits)

lemma exec_dependencyHealth:
  "dependencyHealth (exec c s) = dependencyHealth s \<or>
   dependencyHealth (exec c s) = markReady (dependencyHealth s)"
  using init_try_dependencyHealth[of s]
  by (cases c)
    (simp_all add: exec_def init_catch_dependencyHealth shutdown_dependencyHealth
       getHealthState_dependencyHealth emit_dependencyHealth on_def)

lemma run_keys: "map fst (dependencyHealth (run cs s)) = map fst (dependencyHealth s)"
proof (induction cs arbitrary: s)
  case Nil
  show ?case by (simp add: run_def)
next
  case (Cons c cs)
  have "map fst (dependencyHealth (exec c s)) = map fst (dependencyHealth s)"
    using exec_dependencyHealth[of c s] by (auto simp: markReady_keys)
  with Cons[of "exec c s"] show ?case by (simp add: run_def)
qed

lemma run_ready:
  assumes "distinct D" and "dependencyHealth s = map (\<lambda>n. (n, True)) D"
  shows "dependencyHealth (run cs s) = map (\<lambda>n. (n, True)) D"
  using assms(2)
proof (induction cs arbitrary: s)
  case Nil
  then show ?case by (simp add: run_def)
next
  case (Cons c cs)
  have "distinct (map fst (dependencyHealth s))"
    using assms(1) Cons.prems by (simp add: comp_def)
  then have "markReady (dependencyHealth s) = dependencyHealth s"
    using Cons.prems by (simp add: markReady_distinct comp_def)
  then have "dependencyHealth (exec c s) = map (\<lambda>n. (n, True)) D"
    using exec_dependencyHealth[of c s] Cons.prems by auto
  with Cons.IH[of "exec c s"] show ?case by (simp add: run_def)
qed


lemma defineLifecycle_dependencyHealth:
  "defineLifecycle cfg rt w = Inr s0 \<Longrightarrow>
   dependencyHealth s0 =
     (case dependencies cfg of None \<Rightarrow> [] | Some names \<Rightarrow> declare_deps names)"
  by (auto simp: defineLifecycle_def)

text \<open>
  An \<open>onPing\<close> that returns a \<open>dependencies\<close> key decides the field: with no
  dependency declared the snapshot has \<open>dependencies: { cache: false }\<close>, and with
  \<open>db\<close> and \<open>queue\<close> declared and \<open>init\<close> succeeded it has
  \<open>dependencies: { db: false }\<close>.
\<close>

theorem getHealthState_dependencies_counterexample:
  "dependencies shadowConfig = None \<and>
   \<not> isl (fst (getHealthState (fresh shadowConfig))) \<and>
   obj_get (projr (fst (getHealthState (fresh shadowConfig)))) ''dependencies'' =
     JObj [(''cache'', JBool False)] \<and>
   dependencies staleConfig = Some [''db'', ''queue''] \<and>
   fst (init (fresh staleConfig)) = Inr () \<and>
   \<not> isl (fst (getHealthState (snd (init (fresh staleConfig))))) \<and>
   obj_get (projr (fst (getHealthState (snd (init (fresh staleConfig)))))) ''dependencies'' =
     JObj [(''db'', JBool False)]"
  by (simp add: model_defs shadowConfig_def staleConfig_def depsConfig_def)

text \<open>
  C7, as the code has it. Let the mapping returned by \<open>onPing\<close> have no
  \<open>dependencies\<close> key. For a duplicate-free, non-empty list \<open>D\<close> of declared
  names, in every state after a successful \<open>init\<close> the \<open>dependencies\<close> field of the
  snapshot maps every name of \<open>D\<close> to true; with no dependency declared, the field is
  \<open>undefined\<close> in every state of the instance.
\<close>

theorem getHealthState_dependencies:
  assumes "defineLifecycle cfg rt w = Inr s0"
      and "customState s = (Inr custom, s1)"
      and "healthy s1 = (Inr h, s2)"
      and "\<not> has_key custom ''dependencies''"
  shows "(dependencies cfg = Some D \<and> distinct D \<and> D \<noteq> [] \<and>
          init (run before s0) = (Inr (), si) \<and> s = run after si
          \<longrightarrow> obj_get (projr (fst (getHealthState s))) ''dependencies'' =
              JObj (map (\<lambda>n. (n, JBool True)) D)) \<and>
         ((dependencies cfg = None \<or> dependencies cfg = Some []) \<and> s = run calls s0
          \<longrightarrow> obj_get (projr (fst (getHealthState s))) ''dependencies'' = JUndefined)"
proof -
  have look: "obj_get (projr (fst (getHealthState s))) ''dependencies'' =
              (if dependencyHealth s = [] then JUndefined else JObj (deps s))"
    using getHealthState_lookup[OF assms(2,3), of "''dependencies''"] assms(4)
    by (simp add: obj_get_def)
  have declared: "deps s = map (\<lambda>n. (n, JBool True)) D \<and> dependencyHealth s \<noteq> []"
    if D: "dependencies cfg = Some D" "distinct D" "D \<noteq> []"
      and i: "init (run before s0) = (Inr (), si)" and s: "s = run after si"
  proof -
    have "dependencyHealth s0 = map (\<lambda>n. (n, False)) D"
      using defineLifecycle_dependencyHealth[OF assms(1)] D
      by (simp add: declare_deps_distinct_names)
    then have keys: "map fst (dependencyHealth (run before s0)) = D"
      by (simp add: run_keys comp_def)
    then have "markReady (dependencyHealth (run before s0)) =
               map (\<lambda>p. (fst p, True)) (dependencyHealth (run before s0))"
      using D(2) by (simp add: markReady_distinct)
    also have "\<dots> = map (\<lambda>n. (n, True)) (map fst (dependencyHealth (run before s0)))"
      by (simp add: comp_def)
    finally have "dependencyHealth si = map (\<lambda>n. (n, True)) D"
      using init_Inr[OF i] keys by simp
    then have "dependencyHealth s = map (\<lambda>n. (n, True)) D"
      unfolding s by (rule run_ready[OF D(2)])
    then show ?thesis using D(3) by (simp add: deps_def comp_def)
  qed
  have undeclared: "dependencyHealth s = []"
    if "dependencies cfg = None \<or> dependencies cfg = Some []" and s: "s = run calls s0"
  proof -
    have "dependencyHealth s0 = []"
      using defineLifecycle_dependencyHealth[OF assms(1)] that(1)
      by (auto simp: declare_deps_def)
    then have "map fst (dependencyHealth s) = []"
      unfolding s by (simp add: run_keys)
    then show ?thesis by simp
  qed
  show ?thesis
    using look declared undeclared by auto
qed

theorem getHealthState_dependencies_witness:
  "dependencies depsConfig = Some [''db'', ''queue''] \<and>
   fst (init (fresh depsConfig)) = Inr () \<and>
   obj_get (projr (fst (getHealthState (snd (init (fresh depsConfig)))))) ''dependencies'' =
     JObj [(''db'', JBool True), (''queue'', JBool True)] \<and>
   dependencies emptyConfig = None \<and>
   obj_get (projr (fst (getHealthState (fresh emptyConfig)))) ''dependencies'' = JUndefined \<and>
   obj_get (projr (fst (getHealthState (snd (init (fresh emptyConfig)))))) ''dependencies'' =
     JUndefined"
proof -
  let ?d = "fresh depsConfig"
  let ?di = "snd (init ?d)"
  let ?e = "fresh emptyConfig"
  let ?ei = "snd (init ?e)"
  have dd: "defineLifecycle depsConfig testRuntime 0 = Inr ?d"
    by (simp add: fresh_def defineLifecycle_def)
  have de: "defineLifecycle emptyConfig testRuntime 0 = Inr ?e"
    by (simp add: fresh_def defineLifecycle_def)
  have cfgd: "dependencies depsConfig = Some [''db'', ''queue'']"
    by (simp add: depsConfig_def emptyConfig_def)
  have cfge: "dependencies emptyConfig = None"
    by (simp add: emptyConfig_def)
  have id: "init (run [] ?d) = (Inr (), ?di)"
    by (simp add: run_def model_defs depsConfig_def)
  have cd: "customState ?di = (Inr [], ?di)"
    by (simp add: model_defs depsConfig_def)
  have hd: "healthy ?di = (Inr True, ?di)"
    by (simp add: model_defs depsConfig_def)
  have ce: "customState ?e = (Inr [], ?e)"
    by (simp add: model_defs)
  have he: "healthy ?e = (Inr True, ?e)"
    by (simp add: model_defs)
  have cei: "customState ?ei = (Inr [], ?ei)"
    by (simp add: model_defs)
  have hei: "healthy ?ei = (Inr True, ?ei)"
    by (simp add: model_defs)
  have k: "\<not> has_key [] ''dependencies''"
    by (simp add: has_key_def)
  have r0: "?di = run [] ?di" "?e = run [] ?e" "?ei = run [Init] ?e"
    by (simp_all add: run_def exec_def) (simp add: model_defs)
  have fi: "fst (init ?d) = Inr ()"
    by (simp add: model_defs depsConfig_def)
  have a: "obj_get (projr (fst (getHealthState ?di))) ''dependencies'' =
           JObj [(''db'', JBool True), (''queue'', JBool True)]"
    using getHealthState_dependencies [OF dd cd hd k, of "[''db'', ''queue'']" "[]" ?di "[]" "[]"]
          cfgd id r0(1)
    by simp
  have b: "obj_get (projr (fst (getHealthState ?e))) ''dependencies'' = JUndefined"
    using getHealthState_dependencies [OF de ce he k, of "[]" "[]" ?e "[]" "[]"] cfge r0(2)
    by simp
  have c: "obj_get (projr (fst (getHealthState ?ei))) ''dependencies'' = JUndefined"
    using getHealthState_dependencies [OF de cei hei k, of "[]" "[]" ?e "[]" "[Init]"] cfge r0(3)
    by simp
  show ?thesis
    using a b c cfgd cfge fi by simp
qed

section \<open>Errors at the health endpoint\<close>

lemma createHealthCheckCallback_settles: "\<not> isl (fst (createHealthCheckCallback req s))"
  by (simp add: createHealthCheckCallback_def split: prod.splits sum.splits)

lemma handle_request_settles: "\<not> isl (fst (handle_request req s))"
  by (simp add: handle_request_def server_listener_def createHealthCheckCallback_settles)

text \<open>
  C9. When \<open>getHealthState\<close> rejects while the handler serves a request for
  \<open>/health\<close>, the handler answers 503 with the body
  \<open>{ healthy: false, error: 'Failed to get health state' }\<close> and logs the error; a
  \<open>GET /health\<close> that reaches the server is served by this handler; and for no request
  does the handler, or the server's listener around it, end in an exception.
\<close>

theorem createHealthCheckCallback_catches:
  assumes "url req = ''/health''"
      and "getHealthState s = (Inl err, s1)"
  shows "createHealthCheckCallback req s =
           (Inr \<lparr> statusCode = 503,
                  contentType = Some ''application/json'',
                  body = JSON_stringify
                    (JObj [(''healthy'', JBool False),
                           (''error'', JStr ''Failed to get health state'')]) \<rparr>,
            s1\<lparr>trace := trace s1 @ [LogError ''Error getting health state'']\<rparr>) \<and>
         (httpMethod req = ''GET'' \<longrightarrow>
            handle_request req s = createHealthCheckCallback req s) \<and>
         \<not> isl (fst (createHealthCheckCallback req' s')) \<and>
         \<not> isl (fst (handle_request req' s'))"
  using assms
  by (simp add: createHealthCheckCallback_def handle_request_def server_listener_def
      log_error_def createHealthCheckCallback_settles split: prod.splits sum.splits)

theorem createHealthCheckCallback_catches_witness:
  "fst (getHealthState (snd (init (fresh failingPingConfig)))) = Inl (JError ''Ping failed'') \<and>
   fst (handle_request \<lparr>url = ''/health'', httpMethod = ''GET''\<rparr>
          (snd (init (fresh failingPingConfig)))) =
     Inr \<lparr> statusCode = 503,
           contentType = Some ''application/json'',
           body = JSON_stringify
             (JObj [(''healthy'', JBool False),
                    (''error'', JStr ''Failed to get health state'')]) \<rparr> \<and>
   trace (snd (handle_request \<lparr>url = ''/health'', httpMethod = ''GET''\<rparr>
          (snd (init (fresh failingPingConfig))))) =
     [Emitted ''init'' [], ServerStarted 3000, HandlersRegistered, Emitted ''ready'' [],
      Called ''onPing'' [], LogError ''Error getting health state'']"
proof -
  let ?s = "snd (init (fresh failingPingConfig))"
  let ?req = "\<lparr>url = ''/health'', httpMethod = ''GET''\<rparr>"
  have u: "url ?req = ''/health''" by simp
  have gf: "fst (getHealthState ?s) = Inl (JError ''Ping failed'')"
    by (simp add: model_defs failingPingConfig_def)
  have g: "getHealthState ?s = (Inl (JError ''Ping failed''), snd (getHealthState ?s))"
    using gf by (simp add: prod_eq_iff)
  have t: "trace (snd (getHealthState ?s)) =
    [Emitted ''init'' [], ServerStarted 3000, HandlersRegistered, Emitted ''ready'' [],
      Called ''onPing'' []]"
    by (simp add: model_defs failingPingConfig_def)
  show ?thesis
    using createHealthCheckCallback_catches [OF u g, of ?req ?s] gf t
    by simp
qed

section \<open>The shutdown sequence\<close>

lemma close_healthCheckService_fields:
  assumes "close_healthCheckService s = (r, s')"
  shows "config s' = config s" and "listeners s' = listeners s"
    and "healthCheckService s' = healthCheckService s" and "exitCode s' = exitCode s"
    and "trace s' = trace s @
           (case healthCheckService s of
              None \<Rightarrow> []
            | Some h \<Rightarrow> [CloseCalled, CloseSettled (case r of Inl e \<Rightarrow> Some e | Inr u \<Rightarrow> None)])"
  using assms
  by (auto simp: close_healthCheckService_def close_server_def
      split: option.splits prod.splits if_splits)

lemma await_onShutdown_fields:
  assumes "await_onShutdown s = (r, s')"
  shows "config s' = config s" and "listeners s' = listeners s"
    and "healthCheckService s' = healthCheckService s" and "exitCode s' = exitCode s"
    and "trace s' = trace s @
           (case onShutdown (config s) of None \<Rightarrow> [] | Some f \<Rightarrow> [Called ''onShutdown'' []])"
  using assms
  by (auto simp: await_onShutdown_def call_def split: option.splits prod.splits)

lemma emit_fields:
  assumes "emit ev args s = (r, s')"
  shows "config s' = config s" and "listeners s' = listeners s"
    and "healthCheckService s' = healthCheckService s" and "exitCode s' = exitCode s"
    and "trace s' = trace s @ [Emitted ev args]"
  using assms
  by (auto simp: emit_def Let_def split: prod.splits sum.splits)

lemma shutdown_steps:
  assumes "close_healthCheckService (log_info ''Initiating graceful shutdown...'' s) = (r1, s1)"
      and "await_onShutdown s1 = (r2, s2)"
      and "emit ''done'' [] s2 = (r3, s3)"
  shows "shutdown s =
          (case r1 of
             Inl e \<Rightarrow> (Rejected e, s1)
           | Inr u \<Rightarrow>
               (case r2 of
                  Inl e \<Rightarrow> (Rejected e, s2)
                | Inr u \<Rightarrow>
                    (case r3 of
                       Inl e \<Rightarrow> (Rejected e, s3)
                     | Inr b \<Rightarrow> (Exited 0, process_exit 0 s3))))"
  using assms by (simp add: shutdown_def split: sum.splits)

lemma shutdown_trace:
  assumes "close_healthCheckService (log_info ''Initiating graceful shutdown...'' s) = (r1, s1)"
      and "await_onShutdown s1 = (r2, s2)"
      and "emit ''done'' [] s2 = (r3, s3)"
  shows "trace (snd (shutdown s)) =
           trace s @ [LogInfo ''Initiating graceful shutdown...''] @
           (case healthCheckService s of
              None \<Rightarrow> []
            | Some h \<Rightarrow> [CloseCalled, CloseSettled (case r1 of Inl e \<Rightarrow> Some e | Inr u \<Rightarrow> None)]) @
           (if isl r1 then []
            else (case onShutdown (config s) of None \<Rightarrow> [] | Some f \<Rightarrow> [Called ''onShutdown'' []]) @
                 (if isl r2 then []
                  else [Emitted ''done'' []] @ (if isl r3 then [] else [ProcessExit 0])))"
proof -
  let ?s0 = "log_info ''Initiating graceful shutdown...'' s"
  have t0: "trace ?s0 = trace s @ [LogInfo ''Initiating graceful shutdown...'']"
    and h0: "healthCheckService ?s0 = healthCheckService s"
    and c0: "config ?s0 = config s"
    by (simp_all add: log_info_def)
  note f1 = close_healthCheckService_fields[OF assms(1)]
  note f2 = await_onShutdown_fields[OF assms(2)]
  note f3 = emit_fields[OF assms(3)]
  show ?thesis
    by (simp add: shutdown_steps[OF assms] t0 h0 c0 f1 f2 f3 process_exit_def
        split: sum.splits)
qed


lemma shutdown_exitCode:
  "exitCode (snd (shutdown s)) = (case fst (shutdown s) of Exited c \<Rightarrow> Some 0 | _ \<Rightarrow> exitCode s)"
proof -
  let ?s0 = "log_info ''Initiating graceful shutdown...'' s"
  obtain r1 s1 where a: "close_healthCheckService ?s0 = (r1, s1)" by (cases "close_healthCheckService ?s0")
  obtain r2 s2 where b: "await_onShutdown s1 = (r2, s2)" by (cases "await_onShutdown s1")
  obtain r3 s3 where c: "emit ''done'' [] s2 = (r3, s3)" by (cases "emit ''done'' [] s2")
  note f1 = close_healthCheckService_fields[OF a]
  note f2 = await_onShutdown_fields[OF b]
  note f3 = emit_fields[OF c]
  show ?thesis
    by (simp add: shutdown_steps[OF a b c] f1 f2 f3 log_info_def process_exit_def split: sum.splits)
qed


text \<open>
  C8. In a \<open>shutdown\<close> with a started health server and a configured \<open>onShutdown\<close>,
  every invocation of \<open>onShutdown\<close> among the effects of the call comes after the call
  of \<open>close\<close> and after its successful settlement; and \<open>onShutdown\<close> is invoked
  whenever the close resolves.
\<close>

theorem shutdown_close_before_onShutdown:
  assumes "healthCheckService s = Some h"
      and "onShutdown (config s) = Some f"
      and "t = drop (length (trace s)) (trace (snd (shutdown s)))"
  shows "trace (snd (shutdown s)) = trace s @ t \<and>
         (\<forall>i < length t. t ! i = Called ''onShutdown'' [] \<longrightarrow>
            (\<exists>j < i. t ! j = CloseCalled) \<and> (\<exists>j < i. t ! j = CloseSettled None)) \<and>
         (fst (close_healthCheckService (log_info ''Initiating graceful shutdown...'' s)) = Inr ()
            \<longrightarrow> Called ''onShutdown'' [] \<in> set t)"
proof -
  let ?s0 = "log_info ''Initiating graceful shutdown...'' s"
  obtain r1 s1 where a: "close_healthCheckService ?s0 = (r1, s1)" by (cases "close_healthCheckService ?s0")
  obtain r2 s2 where b: "await_onShutdown s1 = (r2, s2)" by (cases "await_onShutdown s1")
  obtain r3 s3 where c: "emit ''done'' [] s2 = (r3, s3)" by (cases "emit ''done'' [] s2")
  let ?c = "case r1 of Inl e \<Rightarrow> Some e | Inr u \<Rightarrow> None"
  let ?rest = "if isl r2 then [] else [Emitted ''done'' []] @ (if isl r3 then [] else [ProcessExit 0])"
  have tr: "trace (snd (shutdown s)) =
      trace s @ [LogInfo ''Initiating graceful shutdown...'', CloseCalled, CloseSettled ?c] @
        (if isl r1 then [] else Called ''onShutdown'' [] # ?rest)"
    using shutdown_trace[OF a b c] assms(1,2) by simp
  have t: "t = [LogInfo ''Initiating graceful shutdown...'', CloseCalled, CloseSettled ?c] @
        (if isl r1 then [] else Called ''onShutdown'' [] # ?rest)"
    unfolding assms(3) tr by simp
  have pre: "trace (snd (shutdown s)) = trace s @ t"
    unfolding t tr by simp
  have order: "(\<exists>j < i. t ! j = CloseCalled) \<and> (\<exists>j < i. t ! j = CloseSettled None)"
    if i: "i < length t" and at: "t ! i = Called ''onShutdown'' []" for i
  proof (cases "isl r1")
    case True
    then have "t = [LogInfo ''Initiating graceful shutdown...'', CloseCalled, CloseSettled ?c]"
      using t by simp
    with i at have False
      by (auto simp: less_Suc_eq nth_Cons split: nat.splits)
    then show ?thesis ..
  next
    case False
    then have c: "?c = None" by (cases r1) auto
    have i3: "3 \<le> i"
    proof (rule ccontr)
      assume "\<not> 3 \<le> i"
      then have "i = 0 \<or> i = 1 \<or> i = 2" by arith
      with at show False unfolding t by auto
    qed
    have "t ! 1 = CloseCalled" and "t ! 2 = CloseSettled None"
      unfolding t using c by simp_all
    moreover have "1 < i" and "2 < i"
      using i3 by simp_all
    ultimately show ?thesis by blast
  qed
  have called: "Called ''onShutdown'' [] \<in> set t" if "r1 = Inr ()"
    using that unfolding t by simp
  show ?thesis
    using pre order called a by auto
qed

theorem shutdown_close_before_onShutdown_witness:
  "healthCheckService (snd (init (fresh cleanupConfig))) = Some (HealthCheckService 3000) \<and>
   onShutdown (config (snd (init (fresh cleanupConfig)))) \<noteq> None \<and>
   trace (snd (shutdown (snd (init (fresh cleanupConfig))))) =
     trace (snd (init (fresh cleanupConfig))) @
     [LogInfo ''Initiating graceful shutdown...'', CloseCalled, CloseSettled None,
      Called ''onShutdown'' [], Emitted ''done'' [], ProcessExit 0]"
proof -
  let ?s = "snd (init (fresh cleanupConfig))"
  let ?t = "[LogInfo ''Initiating graceful shutdown...'', CloseCalled, CloseSettled None,
      Called ''onShutdown'' [], Emitted ''done'' [], ProcessExit 0]"
  have h: "healthCheckService ?s = Some (HealthCheckService 3000)"
    by (simp add: model_defs cleanupConfig_def)
  have f: "onShutdown (config ?s) = Some (\<lambda>w. (Inr (), Suc w))"
    by (simp add: model_defs cleanupConfig_def)
  have t: "?t = drop (length (trace ?s)) (trace (snd (shutdown ?s)))"
    by (simp add: model_defs cleanupConfig_def)
  show ?thesis
    using shutdown_close_before_onShutdown [OF h f t] h f by simp
qed

text \<open>
  With an \<open>onShutdown\<close> that rejects, \<open>shutdown\<close> itself rejects with that error:
  no \<open>done\<close> event is emitted and the process has not exited.
\<close>

theorem shutdown_settlement_counterexample:
  "onShutdown (config (snd (init (fresh rejectOnceConfig)))) \<noteq> None \<and>
   fst (shutdown (snd (init (fresh rejectOnceConfig)))) = Rejected (JError ''Shutdown failed'') \<and>
   count_list (trace (snd (shutdown (snd (init (fresh rejectOnceConfig))))))
     (Emitted ''done'' []) = 0 \<and>
   exitCode (snd (shutdown (snd (init (fresh rejectOnceConfig))))) = None"
  by (simp add: model_defs rejectOnceConfig_def)

text \<open>
  C2, as the code has it. \<open>shutdown\<close> emits \<open>done\<close> exactly once and exits with
  status 0 when the close of the health server and \<open>onShutdown\<close> complete without an
  error and no \<open>done\<close> listener throws. When the close or \<open>onShutdown\<close> raises an
  error, \<open>shutdown\<close> rejects with it to its caller, emits no \<open>done\<close> and does not
  exit; when the call came from the signal handler, the handler catches the error, logs
  it and exits with status 0, still without a \<open>done\<close> event.
\<close>

theorem shutdown_settlement:
  assumes "close_healthCheckService (log_info ''Initiating graceful shutdown...'' s) = (r1, s1)"
      and "await_onShutdown s1 = (r2, s2)"
      and "emit ''done'' [] s2 = (r3, s3)"
  shows "(r1 = Inr () \<and> r2 = Inr () \<and> \<not> isl r3 \<longrightarrow>
            fst (shutdown s) = Exited 0 \<and>
            exitCode (snd (shutdown s)) = Some 0 \<and>
            count_list (trace (snd (shutdown s))) (Emitted ''done'' []) =
              count_list (trace s) (Emitted ''done'' []) + 1) \<and>
         (r1 = Inl e \<or> (r1 = Inr () \<and> r2 = Inl e) \<longrightarrow>
            fst (shutdown s) = Rejected e \<and>
            exitCode (snd (shutdown s)) = exitCode s \<and>
            count_list (trace (snd (shutdown s))) (Emitted ''done'' []) =
              count_list (trace s) (Emitted ''done'' []) \<and>
            (s = log_info ''Signal received, initiating graceful shutdown'' s' \<longrightarrow>
               exitCode (handleSignal (Some shutdown) nodeSignal s') = Some 0 \<and>
               trace (handleSignal (Some shutdown) nodeSignal s') =
                 trace (snd (shutdown s)) @ [LogError ''Error during shutdown'', ProcessExit 0] \<and>
               count_list (trace (handleSignal (Some shutdown) nodeSignal s'))
                   (Emitted ''done'' []) =
                 count_list (trace s') (Emitted ''done'' [])))"
proof -
  note st = shutdown_steps[OF assms]
  note tr = shutdown_trace[OF assms]
  note ex = shutdown_exitCode[of s]
  have ok: "fst (shutdown s) = Exited 0 \<and> exitCode (snd (shutdown s)) = Some 0 \<and>
            count_list (trace (snd (shutdown s))) (Emitted ''done'' []) =
              count_list (trace s) (Emitted ''done'' []) + 1"
    if that: "r1 = Inr ()" "r2 = Inr ()" "\<not> isl r3"
  proof -
    have res: "fst (shutdown s) = Exited 0"
      using that by (cases r3) (simp_all add: st)
    have cnt: "count_list (trace (snd (shutdown s))) (Emitted ''done'' []) =
               count_list (trace s) (Emitted ''done'' []) + 1"
      using that by (simp add: tr split: option.splits)
    show ?thesis using res cnt ex by simp
  qed
  have bad: "fst (shutdown s) = Rejected e \<and> exitCode (snd (shutdown s)) = exitCode s \<and>
            count_list (trace (snd (shutdown s))) (Emitted ''done'' []) =
              count_list (trace s) (Emitted ''done'' [])"
    if that: "r1 = Inl e \<or> (r1 = Inr () \<and> r2 = Inl e)"
  proof -
    have res: "fst (shutdown s) = Rejected e"
      using that by (auto simp: st)
    have cnt: "count_list (trace (snd (shutdown s))) (Emitted ''done'' []) =
               count_list (trace s) (Emitted ''done'' [])"
      using that by (auto simp: tr split: option.splits)
    show ?thesis using res cnt ex by simp
  qed
  have sig: "exitCode (handleSignal (Some shutdown) nodeSignal s') = Some 0 \<and>
               trace (handleSignal (Some shutdown) nodeSignal s') =
                 trace (snd (shutdown s)) @ [LogError ''Error during shutdown'', ProcessExit 0] \<and>
               count_list (trace (handleSignal (Some shutdown) nodeSignal s'))
                   (Emitted ''done'' []) =
                 count_list (trace s') (Emitted ''done'' [])"
    if r: "r1 = Inl e \<or> (r1 = Inr () \<and> r2 = Inl e)"
      and s: "s = log_info ''Signal received, initiating graceful shutdown'' s'"
  proof -
    have rej: "fst (shutdown s) = Rejected e" using bad[OF r] by simp
    have cnt: "count_list (trace (snd (shutdown s))) (Emitted ''done'' []) =
               count_list (trace s') (Emitted ''done'' [])"
      using bad[OF r] by (simp add: s log_info_def)
    have hs: "handleSignal (Some shutdown) nodeSignal s' =
              process_exit 0 (log_error ''Error during shutdown'' (snd (shutdown s)))"
      using rej by (auto simp: handleSignal_def s[symmetric] split: prod.splits)
    show ?thesis
      using cnt by (simp add: hs process_exit_def log_error_def)
  qed
  show ?thesis
    using ok bad sig by blast
qed

theorem shutdown_settlement_witness:
  "fst (shutdown (snd (init (fresh cleanupConfig)))) = Exited 0 \<and>
   exitCode (snd (shutdown (snd (init (fresh cleanupConfig))))) = Some 0 \<and>
   count_list (trace (snd (shutdown (snd (init (fresh cleanupConfig))))))
     (Emitted ''done'' []) = 1 \<and>
   exitCode (handleSignal (Some shutdown) ''SIGTERM'' (snd (init (fresh rejectOnceConfig)))) =
     Some 0 \<and>
   trace (handleSignal (Some shutdown) ''SIGTERM'' (snd (init (fresh rejectOnceConfig)))) =
     [Emitted ''init'' [], ServerStarted 3000, HandlersRegistered, Emitted ''ready'' [],
      LogInfo ''Signal received, initiating graceful shutdown'',
      LogInfo ''Initiating graceful shutdown...'', CloseCalled, CloseSettled None,
      Called ''onShutdown'' [], LogError ''Error during shutdown'', ProcessExit 0]"
proof -
  let ?c = "snd (init (fresh cleanupConfig))"
  let ?ca = "log_info ''Initiating graceful shutdown...'' ?c"
  let ?cb = "snd (close_healthCheckService ?ca)"
  let ?cc = "snd (await_onShutdown ?cb)"
  let ?cd = "snd (emit ''done'' [] ?cc)"
  have c1: "close_healthCheckService ?ca = (Inr (), ?cb)"
    by (simp add: prod_eq_iff) (simp add: model_defs cleanupConfig_def)
  have c2: "await_onShutdown ?cb = (Inr (), ?cc)"
    by (simp add: prod_eq_iff) (simp add: model_defs cleanupConfig_def)
  have c3: "emit ''done'' [] ?cc = (Inr False, ?cd)"
    by (simp add: prod_eq_iff) (simp add: model_defs cleanupConfig_def)
  have ct: "count_list (trace ?c) (Emitted ''done'' []) = 0"
    by (simp add: model_defs cleanupConfig_def)
  let ?r = "snd (init (fresh rejectOnceConfig))"
  let ?rs = "log_info ''Signal received, initiating graceful shutdown'' ?r"
  let ?ra = "log_info ''Initiating graceful shutdown...'' ?rs"
  let ?rb = "snd (close_healthCheckService ?ra)"
  let ?rc = "snd (await_onShutdown ?rb)"
  let ?rd = "snd (emit ''done'' [] ?rc)"
  have r1: "close_healthCheckService ?ra = (Inr (), ?rb)"
    by (simp add: prod_eq_iff) (simp add: model_defs rejectOnceConfig_def)
  have r2: "await_onShutdown ?rb = (Inl (JError ''Shutdown failed''), ?rc)"
    by (simp add: prod_eq_iff) (simp add: model_defs rejectOnceConfig_def)
  have r3: "emit ''done'' [] ?rc = (Inr False, ?rd)"
    by (simp add: prod_eq_iff) (simp add: model_defs rejectOnceConfig_def)
  have rt: "trace (snd (shutdown ?rs)) =
     [Emitted ''init'' [], ServerStarted 3000, HandlersRegistered, Emitted ''ready'' [],
      LogInfo ''Signal received, initiating graceful shutdown'',
      LogInfo ''Initiating graceful shutdown...'', CloseCalled, CloseSettled None,
      Called ''onShutdown'' []]"
    by (simp add: model_defs rejectOnceConfig_def)
  show ?thesis
    using shutdown_settlement [OF c1 c2 c3, where e = "JError ''x''"]
          shutdown_settlement [OF r1 r2 r3, where e = "JError ''Shutdown failed''" and s' = ?r
            and nodeSignal = "''SIGTERM''"]
          ct rt
    by simp
qed










section \<open>Failures of initialization\<close>

lemma await_onInit_fields:
  assumes "await_onInit s = (r, s')"
  shows "config s' = config s" and "listeners s' = listeners s"
    and "healthCheckService s' = healthCheckService s" and "exitCode s' = exitCode s"
    and "dependencyHealth s' = dependencyHealth s"
    and "trace s' = trace s @
           (case onInit (config s) of None \<Rightarrow> [] | Some f \<Rightarrow> [Called ''onInit'' []])"
    and "isl r \<Longrightarrow> onInit (config s) \<noteq> None"
  using assms
  by (auto simp: await_onInit_def call_def split: option.splits prod.splits)

lemma await_onFailure_fields:
  assumes "await_onFailure error s = (r, s')"
  shows "config s' = config s" and "listeners s' = listeners s"
    and "healthCheckService s' = healthCheckService s" and "exitCode s' = exitCode s"
    and "dependencyHealth s' = dependencyHealth s"
    and "trace s' = trace s @
           (case onFailure (config s) of None \<Rightarrow> [] | Some f \<Rightarrow> [Called ''onFailure'' [error]])"
  using assms
  by (auto simp: await_onFailure_def call_def split: option.splits prod.splits)

lemma emit_flags:
  assumes "emit ev args s = (r, s')"
  shows "dependencyHealth s' = dependencyHealth s"
  using assms emit_dependencyHealth[of ev args s] by simp

lemma init_setup_fields:
  "config (init_setup s) = config s"
  "listeners (init_setup s) = listeners s"
  "healthCheckService (init_setup s) = Some (HealthCheckService DEFAULT_PORT)"
  "exitCode (init_setup s) = exitCode s"
  "trace (init_setup s) = trace s @ [ServerStarted DEFAULT_PORT, HandlersRegistered]"
  by (simp_all add: init_setup_def startHealthCheckServer_def setupShutdownHandlers_def)

lemma init_try_steps:
  assumes "emit ''init'' [] s = (r1, s1)"
      and "await_onInit s1 = (r2, s2)"
      and "emit ''ready'' [] (init_setup s2) = (r3, s3)"
  shows "init_try s =
          (case r1 of
             Inl e \<Rightarrow> (Inl e, s1)
           | Inr b \<Rightarrow>
               (case r2 of
                  Inl e \<Rightarrow> (Inl e, s2)
                | Inr u \<Rightarrow>
                    (case r3 of
                       Inl e \<Rightarrow> (Inl e, s3)
                     | Inr b \<Rightarrow> (Inr (), s3))))"
  using assms by (simp add: init_try_def split: sum.splits)

lemma init_catch_steps:
  assumes "init_try s = (Inl error, s1)"
      and "emit ''failure'' [error] s1 = (r2, s2)"
      and "await_onFailure error s2 = (r3, s3)"
  shows "init s =
          (case r2 of
             Inl e \<Rightarrow> (Inl e, s2)
           | Inr b \<Rightarrow>
               (case r3 of
                  Inl e \<Rightarrow> (Inl e, s3)
                | Inr u \<Rightarrow> (Inl error, s3)))"
  using assms by (simp add: init_def split: sum.splits)

lemma registered_fields:
  "config (fold (\<lambda>p. on (fst p) (snd p)) ls s) = config s"
  "dependencyHealth (fold (\<lambda>p. on (fst p) (snd p)) ls s) = dependencyHealth s"
  "healthCheckService (fold (\<lambda>p. on (fst p) (snd p)) ls s) = healthCheckService s"
  by (induction ls arbitrary: s) (simp_all add: on_def)

lemma defineLifecycle_fields:
  assumes "defineLifecycle cfg rt w = Inr s0"
  shows "config s0 = cfg" and "healthCheckService s0 = None"
    and "distinct (map fst (dependencyHealth s0))"
    and "\<forall>p \<in> set (dependencyHealth s0). snd p = False"
proof -
  show "config s0 = cfg" and "healthCheckService s0 = None"
    using assms by (auto simp: defineLifecycle_def)
  have dh: "dependencyHealth s0 =
     (case dependencies cfg of None \<Rightarrow> [] | Some names \<Rightarrow> declare_deps names)"
    by (rule defineLifecycle_dependencyHealth[OF assms])
  show "distinct (map fst (dependencyHealth s0))"
    unfolding dh by (simp add: declare_deps_distinct split: option.splits)
  show "\<forall>p \<in> set (dependencyHealth s0). snd p = False"
  proof (cases "dependencies cfg")
    case None
    then show ?thesis by (simp add: dh)
  next
    case (Some names)
    then show ?thesis using declare_deps_false[of _ names] by (simp add: dh)
  qed
qed

text \<open>
  With an \<open>onInit\<close> that rejects with \<open>Init failed\<close> and an \<open>onFailure\<close> that
  rejects itself, \<open>init\<close> rejects with the error of \<open>onFailure\<close>, not with the one
  of \<open>onInit\<close>.
\<close>

theorem init_onInit_raises_counterexample:
  "fst (await_onInit (snd (emit ''init'' [] (fresh doubleFailureConfig)))) =
     Inl (JError ''Init failed'') \<and>
   fst (init (fresh doubleFailureConfig)) = Inl (JError ''Failure handler failed'') \<and>
   JError ''Failure handler failed'' \<noteq> JError ''Init failed''"
  by (simp add: model_defs doubleFailureConfig_def failingInitConfig_def depsConfig_def)

text \<open>
  C5, as the code has it. On a fresh instance with any listeners registered, of which none
  for \<open>init\<close> or \<open>failure\<close> throws, let \<open>onInit\<close> raise \<open>E\<close>. Then \<open>init\<close> emits
  \<open>failure\<close> once, carrying \<open>E\<close>, invokes a configured \<open>onFailure\<close> once, with
  \<open>E\<close>, starts no health server and leaves every declared flag false. It rejects with
  \<open>E\<close> when \<open>onFailure\<close> is absent or resolves, and with the error of \<open>onFailure\<close>
  when \<open>onFailure\<close> rejects.
\<close>

theorem init_onInit_raises:
  assumes "defineLifecycle cfg rt w = Inr s0"
      and "s = fold (\<lambda>p. on (fst p) (snd p)) ls s0"
      and "emit ''init'' [] s = (Inr b, s1)"
      and "await_onInit s1 = (Inl E, s2)"
      and "emit ''failure'' [E] s2 = (Inr b', s3)"
      and "await_onFailure E s3 = (r, s4)"
  shows "init s = ((case r of Inl F \<Rightarrow> Inl F | Inr u \<Rightarrow> Inl E), s4) \<and>
         trace s4 = trace s @
           [Emitted ''init'' [], Called ''onInit'' [], Emitted ''failure'' [E]] @
           (case onFailure cfg of None \<Rightarrow> [] | Some f \<Rightarrow> [Called ''onFailure'' [E]]) \<and>
         dependencyHealth s4 = dependencyHealth s0 \<and>
         (\<forall>p \<in> set (dependencyHealth s4). snd p = False) \<and>
         healthCheckService s4 = None"
proof -
  note d = defineLifecycle_fields[OF assms(1)]
  note g = registered_fields[of ls s0, folded assms(2)]
  note e1 = emit_fields[OF assms(3)] emit_flags[OF assms(3)]
  note i2 = await_onInit_fields[OF assms(4)]
  note e3 = emit_fields[OF assms(5)] emit_flags[OF assms(5)]
  note f4 = await_onFailure_fields[OF assms(6)]
  obtain r' s' where rdy: "emit ''ready'' [] (init_setup s2) = (r', s')"
    by (cases "emit ''ready'' [] (init_setup s2)")
  have t: "init_try s = (Inl E, s2)"
    using init_try_steps[OF assms(3,4) rdy] by simp
  have res: "init s = ((case r of Inl F \<Rightarrow> Inl F | Inr u \<Rightarrow> Inl E), s4)"
    using init_catch_steps[OF t assms(5,6)] by (simp split: sum.splits)
  have oi: "onInit (config s1) \<noteq> None"
    using i2(7) by simp
  have tr: "trace s4 = trace s @
           [Emitted ''init'' [], Called ''onInit'' [], Emitted ''failure'' [E]] @
           (case onFailure cfg of None \<Rightarrow> [] | Some f \<Rightarrow> [Called ''onFailure'' [E]])"
    using oi by (auto simp: f4 e3 i2 e1 g d split: option.splits)
  have dh: "dependencyHealth s4 = dependencyHealth s0"
    by (simp add: f4 e3 i2 e1 g)
  have hs: "healthCheckService s4 = None"
    by (simp add: f4 e3 i2 e1 g d)
  show ?thesis
    using res tr dh hs d(4) by simp
qed

theorem init_onInit_raises_witness:
  "fst (await_onInit (snd (emit ''init'' [] (fresh failingInitConfig)))) =
     Inl (JError ''Init failed'') \<and>
   fst (init (fresh failingInitConfig)) = Inl (JError ''Init failed'') \<and>
   trace (snd (init (fresh failingInitConfig))) =
     [Emitted ''init'' [], Called ''onInit'' [], Emitted ''failure'' [JError ''Init failed''],
      Called ''onFailure'' [JError ''Init failed'']] \<and>
   dependencyHealth (snd (init (fresh failingInitConfig))) =
     [(''db'', False), (''queue'', False)]"
proof -
  let ?s = "fresh failingInitConfig"
  let ?E = "JError ''Init failed''"
  let ?sa = "snd (emit ''init'' [] ?s)"
  let ?sb = "snd (await_onInit ?sa)"
  let ?sc = "snd (emit ''failure'' [?E] ?sb)"
  let ?sd = "snd (await_onFailure ?E ?sc)"
  have d: "defineLifecycle failingInitConfig testRuntime 0 = Inr ?s"
    by (simp add: fresh_def defineLifecycle_def)
  have l: "?s = fold (\<lambda>p. on (fst p) (snd p)) [] ?s"
    by simp
  have a: "emit ''init'' [] ?s = (Inr False, ?sa)"
    by (simp add: prod_eq_iff) (simp add: model_defs failingInitConfig_def depsConfig_def)
  have bf: "fst (await_onInit ?sa) = Inl ?E"
    by (simp add: model_defs failingInitConfig_def depsConfig_def)
  have b: "await_onInit ?sa = (Inl ?E, ?sb)"
    using bf by (simp add: prod_eq_iff)
  have c: "emit ''failure'' [?E] ?sb = (Inr False, ?sc)"
    by (simp add: prod_eq_iff) (simp add: model_defs failingInitConfig_def depsConfig_def)
  have e: "await_onFailure ?E ?sc = (Inr (), ?sd)"
    by (simp add: prod_eq_iff) (simp add: model_defs failingInitConfig_def depsConfig_def)
  have o: "onFailure failingInitConfig = Some (\<lambda>e w. (Inr (), Suc w))"
    by (simp add: failingInitConfig_def depsConfig_def emptyConfig_def)
  have t: "trace ?s = []" and dh: "dependencyHealth ?s = [(''db'', False), (''queue'', False)]"
    by (simp_all add: model_defs failingInitConfig_def depsConfig_def)
  show ?thesis
    using init_onInit_raises [OF d l a b c e] bf o t dh by simp
qed

text \<open>
  With a \<open>ready\<close> listener that throws \<open>Listener failed\<close> and an \<open>onFailure\<close> that
  rejects itself, \<open>init\<close> rejects with the error of \<open>onFailure\<close>, not with the
  listener's exception.
\<close>

theorem init_ready_listener_throws_counterexample:
  "fst (emit ''ready'' []
     (init_setup (snd (await_onInit (snd (emit ''init'' []
        (on ''ready'' throwingListener (fresh unhandledConfig)))))))) =
     Inl (JError ''Listener failed'') \<and>
   fst (init (on ''ready'' throwingListener (fresh unhandledConfig))) =
     Inl (JError ''Failure handler failed'') \<and>
   JError ''Failure handler failed'' \<noteq> JError ''Listener failed''"
  by (simp add: model_defs unhandledConfig_def depsConfig_def throwingListener_def)

text \<open>
  C10, as the code has it. On a fresh instance with any listeners registered, of which
  none for \<open>init\<close> or \<open>failure\<close> throws, let \<open>onInit\<close> succeed and a \<open>ready\<close>
  listener throw \<open>X\<close>. Then every declared flag is true and the health server is started,
  and yet \<open>init\<close> emits \<open>failure\<close> carrying \<open>X\<close> and invokes a configured
  \<open>onFailure\<close> with \<open>X\<close>. It rejects with \<open>X\<close> when \<open>onFailure\<close> is absent or
  resolves, and with the error of \<open>onFailure\<close> when \<open>onFailure\<close> rejects.
\<close>

theorem init_ready_listener_throws:
  assumes "defineLifecycle cfg rt w = Inr s0"
      and "s = fold (\<lambda>p. on (fst p) (snd p)) ls s0"
      and "emit ''init'' [] s = (Inr b, s1)"
      and "await_onInit s1 = (Inr (), s2)"
      and "emit ''ready'' [] (init_setup s2) = (Inl X, s3)"
      and "emit ''failure'' [X] s3 = (Inr b', s4)"
      and "await_onFailure X s4 = (r, s5)"
  shows "init s = ((case r of Inl F \<Rightarrow> Inl F | Inr u \<Rightarrow> Inl X), s5) \<and>
         dependencyHealth s5 = map (\<lambda>p. (fst p, True)) (dependencyHealth s0) \<and>
         healthCheckService s5 = Some (HealthCheckService DEFAULT_PORT) \<and>
         trace s5 = trace s2 @
           [ServerStarted DEFAULT_PORT, HandlersRegistered, Emitted ''ready'' [],
            Emitted ''failure'' [X]] @
           (case onFailure cfg of None \<Rightarrow> [] | Some f \<Rightarrow> [Called ''onFailure'' [X]])"
proof -
  note d = defineLifecycle_fields[OF assms(1)]
  note g = registered_fields[of ls s0, folded assms(2)]
  note e1 = emit_fields[OF assms(3)] emit_flags[OF assms(3)]
  note i2 = await_onInit_fields(1-6)[OF assms(4)]
  note e3 = emit_fields[OF assms(5)] emit_flags[OF assms(5)]
  note e4 = emit_fields[OF assms(6)] emit_flags[OF assms(6)]
  note f5 = await_onFailure_fields[OF assms(7)]
  have t: "init_try s = (Inl X, s3)"
    using init_try_steps[OF assms(3,4,5)] by simp
  have res: "init s = ((case r of Inl F \<Rightarrow> Inl F | Inr u \<Rightarrow> Inl X), s5)"
    using init_catch_steps[OF t assms(6,7)] by (simp split: sum.splits)
  have "dependencyHealth s5 = markReady (dependencyHealth s0)"
    by (simp add: f5 e4 e3 init_setup_dependencyHealth i2 e1 g)
  then have dh: "dependencyHealth s5 = map (\<lambda>p. (fst p, True)) (dependencyHealth s0)"
    by (simp add: markReady_distinct[OF d(3)])
  have hs: "healthCheckService s5 = Some (HealthCheckService DEFAULT_PORT)"
    by (simp add: f5 e4 e3 init_setup_fields)
  have tr: "trace s5 = trace s2 @
           [ServerStarted DEFAULT_PORT, HandlersRegistered, Emitted ''ready'' [],
            Emitted ''failure'' [X]] @
           (case onFailure cfg of None \<Rightarrow> [] | Some f \<Rightarrow> [Called ''onFailure'' [X]])"
    by (simp add: f5 e4 e3 init_setup_fields i2 e1 g d split: option.splits)
  show ?thesis
    using res dh hs tr by simp
qed

theorem init_ready_listener_throws_witness:
  "fst (emit ''ready'' []
     (init_setup (snd (await_onInit (snd (emit ''init'' []
        (on ''ready'' throwingListener (fresh handledConfig)))))))) =
     Inl (JError ''Listener failed'') \<and>
   fst (init (on ''ready'' throwingListener (fresh handledConfig))) =
     Inl (JError ''Listener failed'') \<and>
   dependencyHealth (snd (init (on ''ready'' throwingListener (fresh handledConfig)))) =
     [(''db'', True), (''queue'', True)] \<and>
   healthCheckService (snd (init (on ''ready'' throwingListener (fresh handledConfig)))) =
     Some (HealthCheckService 3000) \<and>
   trace (snd (init (on ''ready'' throwingListener (fresh handledConfig)))) =
     [Emitted ''init'' [], ServerStarted 3000, HandlersRegistered, Emitted ''ready'' [],
      Emitted ''failure'' [JError ''Listener failed''],
      Called ''onFailure'' [JError ''Listener failed'']]"
proof -
  let ?f = "fresh handledConfig"
  let ?s = "on ''ready'' throwingListener ?f"
  let ?X = "JError ''Listener failed''"
  let ?sa = "snd (emit ''init'' [] ?s)"
  let ?sb = "snd (await_onInit ?sa)"
  let ?sc = "snd (emit ''ready'' [] (init_setup ?sb))"
  let ?sd = "snd (emit ''failure'' [?X] ?sc)"
  let ?se = "snd (await_onFailure ?X ?sd)"
  have d: "defineLifecycle handledConfig testRuntime 0 = Inr ?f"
    by (simp add: fresh_def defineLifecycle_def)
  have l: "?s = fold (\<lambda>p. on (fst p) (snd p)) [(''ready'', throwingListener)] ?f"
    by simp
  have a: "emit ''init'' [] ?s = (Inr False, ?sa)"
    by (simp add: prod_eq_iff) (simp add: model_defs handledConfig_def depsConfig_def)
  have b: "await_onInit ?sa = (Inr (), ?sb)"
    by (simp add: prod_eq_iff) (simp add: model_defs handledConfig_def depsConfig_def)
  have cf: "fst (emit ''ready'' [] (init_setup ?sb)) = Inl ?X"
    by (simp add: model_defs handledConfig_def depsConfig_def throwingListener_def)
  have c: "emit ''ready'' [] (init_setup ?sb) = (Inl ?X, ?sc)"
    using cf by (simp add: prod_eq_iff)
  have e: "emit ''failure'' [?X] ?sc = (Inr False, ?sd)"
    by (simp add: prod_eq_iff)
      (simp add: model_defs handledConfig_def depsConfig_def throwingListener_def)
  have f: "await_onFailure ?X ?sd = (Inr (), ?se)"
    by (simp add: prod_eq_iff)
      (simp add: model_defs handledConfig_def depsConfig_def throwingListener_def)
  have o: "onFailure handledConfig = Some (\<lambda>e w. (Inr (), Suc w))"
    by (simp add: handledConfig_def depsConfig_def emptyConfig_def)
  have t: "trace ?sb = [Emitted ''init'' []]"
    and dh: "dependencyHealth ?f = [(''db'', False), (''queue'', False)]"
    by (simp_all add: model_defs handledConfig_def depsConfig_def)
  show ?thesis
    using init_ready_listener_throws [OF d l a b c e f] cf o t dh
    by (simp add: DEFAULT_PORT_def)
qed

end
